theory Spec2Isabelle
  imports Main "HOL-Library.Word"
begin

section \<open>The store\<close>

text \<open>
  wasm.hh manipulates raw pointers: a \<open>vec<T>\<close> owns a block \<open>T[]\<close>, a
  \<open>vec<T*>\<close> owns the objects its slots point to, a \<open>Val\<close> of reference kind owns a
  \<open>Ref\<close>. The model makes the store explicit. An address is a natural number and \<open>0\<close>
  is \<open>nullptr\<close>. Assertions are modelled as checked (a failed \<open>assert\<close> aborts the
  program: \<open>Inl AssertionFailed\<close>); what C++ leaves undefined (reading memory that was
  never written, reading a union through a member that is not the active one, touching a
  block that is not live, deleting twice) is \<open>Inl UndefinedBehaviour\<close>; the one
  exception the code can raise, \<open>std::bad_array_new_length\<close> out of an array
  new-expression, is \<open>Inl BadArrayNewLength\<close>.
\<close>

type_synonym addr = nat

abbreviation nullptr :: addr where
  "nullptr \<equiv> 0"

datatype error = AssertionFailed | UndefinedBehaviour | BadArrayNewLength

text \<open>
  A cell of an array block. \<open>new T[n]\<close> default-initialises: for a scalar or pointer
  element type the cell holds an indeterminate value until it is first written.
\<close>

datatype 'c cell = Indeterminate | Cell 'c

text \<open>
  \<open>arrays\<close>: the live array blocks (\<open>new T[n]\<close>); \<open>objects\<close>: the live single objects
  (the pointees of \<open>T*\<close> elements and of \<open>Ref*\<close> handles, with an abstract state
  \<open>'o\<close>); \<open>deleted\<close>: the trace of every \<open>delete p\<close> executed so far, in order;
  \<open>next_addr\<close>: the last address handed out; \<open>avail\<close>: how many more cells the allocator
  will hand out before \<open>new\<close> fails (the allocator is outside wasm.hh: this counter is
  the oracle for its failures); \<open>max_length\<close>: the largest element count \<open>n\<close> for
  which the byte size \<open>n * sizeof(T)\<close> of a block of this store's element type still
  fits what the implementation accepts in an array new-expression.
\<close>

record ('c, 'o) heap =
  arrays :: "addr \<rightharpoonup> 'c cell list"
  objects :: "addr \<rightharpoonup> 'o"
  deleted :: "addr list"
  next_addr :: addr
  avail :: nat
  max_length :: nat

text \<open>\<open>size_t\<close> on a 64-bit target; \<open>SIZE_MAX\<close> is the all-ones word.\<close>

type_synonym size_t = "64 word"

definition SIZE_MAX :: size_t where
  "SIZE_MAX = - 1"

text \<open>
  \<open>new(std::nothrow) T[n]\<close>. When the allocator grants the request the value is a
  fresh non-null block of \<open>n\<close> default-initialised cells (\<open>dflt\<close> is what
  default-initialisation leaves in a cell of type \<open>T\<close>). A request for \<open>SIZE_MAX\<close>
  elements is never granted: no address space holds such a block. When the request is
  not granted and the element count is beyond \<open>max_length\<close>, the new-expression throws
  \<open>std::bad_array_new_length\<close>, also in its \<open>nothrow\<close> form (g++ raises it before
  the allocation function is called); otherwise its value is \<open>nullptr\<close>.
\<close>

definition can_allocate :: "size_t \<Rightarrow> ('c, 'o) heap \<Rightarrow> bool" where
  "can_allocate n h = (unat n \<le> avail h \<and> n \<noteq> SIZE_MAX)"

definition alloc_block :: "'c cell \<Rightarrow> size_t \<Rightarrow> ('c, 'o) heap \<Rightarrow> ('c, 'o) heap" where
  "alloc_block dflt n h =
     h\<lparr>arrays := (arrays h)(Suc (next_addr h) \<mapsto> replicate (unat n) dflt),
       next_addr := Suc (next_addr h),
       avail := avail h - unat n\<rparr>"

definition new_array :: "'c cell \<Rightarrow> size_t \<Rightarrow> ('c, 'o) heap \<Rightarrow> error + (addr \<times> ('c, 'o) heap)" where
  "new_array dflt n h =
     (if can_allocate n h
      then Inr (Suc (next_addr h), alloc_block dflt n h)
      else if max_length h < unat n
      then Inl BadArrayNewLength
      else Inr (nullptr, h))"

text \<open>Replacing the contents of the block at \<open>data\<close>; nothing else changes.\<close>

definition set_block :: "addr \<Rightarrow> 'c cell list \<Rightarrow> ('c, 'o) heap \<Rightarrow> ('c, 'o) heap" where
  "set_block data cs h = h\<lparr>arrays := (arrays h)(data \<mapsto> cs)\<rparr>"

text \<open>
  Reading and writing \<open>data[i]\<close>. There is no bounds check in the source: an access
  outside a live block is undefined, and so is reading a cell that was never written.
\<close>

definition load :: "addr \<Rightarrow> nat \<Rightarrow> ('c, 'o) heap \<Rightarrow> error + 'c" where
  "load data i h =
     (case arrays h data of
        None \<Rightarrow> Inl UndefinedBehaviour
      | Some cs \<Rightarrow>
          (if i < length cs
           then (case cs ! i of Indeterminate \<Rightarrow> Inl UndefinedBehaviour | Cell c \<Rightarrow> Inr c)
           else Inl UndefinedBehaviour))"

definition store :: "addr \<Rightarrow> nat \<Rightarrow> 'c \<Rightarrow> ('c, 'o) heap \<Rightarrow> error + ('c, 'o) heap" where
  "store data i c h =
     (case arrays h data of
        None \<Rightarrow> Inl UndefinedBehaviour
      | Some cs \<Rightarrow>
          (if i < length cs
           then Inr (set_block data (cs[i := Cell c]) h)
           else Inl UndefinedBehaviour))"

text \<open>
  Modelled from the spec: \<open>delete p\<close> for a non-null \<open>p\<close>. The destructors and
  \<open>operator delete\<close> of the element classes (\<open>Ref\<close>, \<open>ValType\<close>, ...) are declared
  in wasm.hh and defined by the engine. Deleting ends the life of the object: the model
  removes it from the store and records the deletion in the trace. Deleting what is not
  live (a second time, or a pointer that never was an object) is undefined.
\<close>

definition delete_obj :: "addr \<Rightarrow> ('c, 'o) heap \<Rightarrow> error + ('c, 'o) heap" where
  "delete_obj p h =
     (case objects h p of
        None \<Rightarrow> Inl UndefinedBehaviour
      | Some ob \<Rightarrow> Inr (h\<lparr>objects := (objects h)(p := None), deleted := deleted h @ [p]\<rparr>))"

text \<open>
  Modelled from the spec: the \<open>copy()\<close> member of the element classes (\<open>ValType::copy\<close>,
  \<open>ExternType::copy\<close>, \<open>Ref::copy\<close>, ...), declared in wasm.hh and defined by the
  engine. It yields an owned handle to a new object that is value-equal to the original
  and lives at another address, or the absent handle on resource exhaustion.
\<close>

definition obj_copy :: "addr \<Rightarrow> ('c, 'o) heap \<Rightarrow> error + (addr \<times> ('c, 'o) heap)" where
  "obj_copy p h =
     (case objects h p of
        None \<Rightarrow> Inl UndefinedBehaviour
      | Some ob \<Rightarrow>
          (if 1 \<le> avail h
           then (let q = Suc (next_addr h)
                 in Inr (q, h\<lparr>objects := (objects h)(q \<mapsto> ob),
                              next_addr := q,
                              avail := avail h - 1\<rparr>))
           else Inr (nullptr, h)))"

section \<open>Element traits\<close>

text \<open>
  \<open>vec<T>\<close> is parameterised by \<open>vec_traits<T>\<close>; the model passes the traits as a
  record of operations. \<open>'c\<close> is what a cell of \<open>T[]\<close> holds, \<open>'w\<close> is \<open>own<T>\<close>.
  Two more fields say what the language does for \<open>T\<close> itself: \<open>default_init\<close> is what
  \<open>new T[n]\<close> leaves in each cell, \<open>elem_dtor\<close> is \<open>~T()\<close>, which \<open>delete[]\<close> runs on
  every element.
\<close>

record ('c, 'w, 'o) vec_traits =
  construct :: "size_t \<Rightarrow> addr \<Rightarrow> ('c, 'o) heap \<Rightarrow> error + ('c, 'o) heap"
  destruct :: "size_t \<Rightarrow> addr \<Rightarrow> ('c, 'o) heap \<Rightarrow> error + ('c, 'o) heap"
  move :: "size_t \<Rightarrow> addr \<Rightarrow> 'w list \<Rightarrow> ('c, 'o) heap \<Rightarrow> error + ('w list \<times> ('c, 'o) heap)"
  copy :: "size_t \<Rightarrow> addr \<Rightarrow> addr \<Rightarrow> ('c, 'o) heap \<Rightarrow> error + ('c, 'o) heap"
  default_init :: "'c cell"
  elem_dtor :: "'c \<Rightarrow> ('c, 'o) heap \<Rightarrow> error + ('c, 'o) heap"

subsection \<open>\<open>vec_traits<T*>\<close>: owned-pointer elements\<close>

text \<open>
  Each loop \<open>for (size_t i = 0; i < size; ++i)\<close> is a recursion on the index \<open>i\<close>,
  running up to \<open>n = unat size\<close>.
\<close>

function ptr_construct_loop :: "nat \<Rightarrow> nat \<Rightarrow> addr \<Rightarrow> (addr, 'o) heap \<Rightarrow> error + (addr, 'o) heap" where
  "ptr_construct_loop i n data h =
     (if i < n
      then (case store data i nullptr h of
              Inl e \<Rightarrow> Inl e
            | Inr h' \<Rightarrow> ptr_construct_loop (Suc i) n data h')
      else Inr h)"
  by pat_completeness auto
termination
  by (relation "measure (\<lambda>(i, n, data, h). n - i)") auto

declare ptr_construct_loop.simps [simp del]

definition ptr_construct :: "size_t \<Rightarrow> addr \<Rightarrow> (addr, 'o) heap \<Rightarrow> error + (addr, 'o) heap" where
  "ptr_construct sz data h = ptr_construct_loop 0 (unat sz) data h"

function ptr_destruct_loop :: "nat \<Rightarrow> nat \<Rightarrow> addr \<Rightarrow> (addr, 'o) heap \<Rightarrow> error + (addr, 'o) heap" where
  "ptr_destruct_loop i n data h =
     (if i < n
      then (case load data i h of
              Inl e \<Rightarrow> Inl e
            | Inr p \<Rightarrow>
                (if p \<noteq> nullptr
                 then (case delete_obj p h of
                         Inl e \<Rightarrow> Inl e
                       | Inr h' \<Rightarrow> ptr_destruct_loop (Suc i) n data h')
                 else ptr_destruct_loop (Suc i) n data h))
      else Inr h)"
  by pat_completeness auto
termination
  by (relation "measure (\<lambda>(i, n, data, h). n - i)") auto

declare ptr_destruct_loop.simps [simp del]

definition ptr_destruct :: "size_t \<Rightarrow> addr \<Rightarrow> (addr, 'o) heap \<Rightarrow> error + (addr, 'o) heap" where
  "ptr_destruct sz data h = ptr_destruct_loop 0 (unat sz) data h"

text \<open>
  \<open>move\<close>: \<open>init\<close> is the caller's array of \<open>own<T*>\<close>; \<open>init[i].release()\<close> yields the
  pointer and leaves \<open>init[i]\<close> null. Reading past the end of \<open>init\<close> is undefined.
\<close>

function ptr_move_loop :: "nat \<Rightarrow> nat \<Rightarrow> addr \<Rightarrow> addr list \<Rightarrow> (addr, 'o) heap \<Rightarrow> error + (addr list \<times> (addr, 'o) heap)" where
  "ptr_move_loop i n data init h =
     (if i < n
      then (if i < length init
            then (case store data i (init ! i) h of
                    Inl e \<Rightarrow> Inl e
                  | Inr h' \<Rightarrow> ptr_move_loop (Suc i) n data (init[i := nullptr]) h')
            else Inl UndefinedBehaviour)
      else Inr (init, h))"
  by pat_completeness auto
termination
  by (relation "measure (\<lambda>(i, n, data, init, h). n - i)") auto

declare ptr_move_loop.simps [simp del]

definition ptr_move :: "size_t \<Rightarrow> addr \<Rightarrow> addr list \<Rightarrow> (addr, 'o) heap \<Rightarrow> error + (addr list \<times> (addr, 'o) heap)" where
  "ptr_move sz data init h = ptr_move_loop 0 (unat sz) data init h"

text \<open>
  \<open>copy\<close>: \<open>init\<close> is the source block. A slot is written only where the source slot is
  non-null; there is no \<open>else\<close> branch.
\<close>

function ptr_copy_loop :: "nat \<Rightarrow> nat \<Rightarrow> addr \<Rightarrow> addr \<Rightarrow> (addr, 'o) heap \<Rightarrow> error + (addr, 'o) heap" where
  "ptr_copy_loop i n data init h =
     (if i < n
      then (case load init i h of
              Inl e \<Rightarrow> Inl e
            | Inr p \<Rightarrow>
                (if p \<noteq> nullptr
                 then (case obj_copy p h of
                         Inl e \<Rightarrow> Inl e
                       | Inr (q, h1) \<Rightarrow>
                           (case store data i q h1 of
                              Inl e \<Rightarrow> Inl e
                            | Inr h2 \<Rightarrow> ptr_copy_loop (Suc i) n data init h2))
                 else ptr_copy_loop (Suc i) n data init h))
      else Inr h)"
  by pat_completeness auto
termination
  by (relation "measure (\<lambda>(i, n, data, init, h). n - i)") auto

declare ptr_copy_loop.simps [simp del]

definition ptr_copy :: "size_t \<Rightarrow> addr \<Rightarrow> addr \<Rightarrow> (addr, 'o) heap \<Rightarrow> error + (addr, 'o) heap" where
  "ptr_copy sz data init h = ptr_copy_loop 0 (unat sz) data init h"

text \<open>A pointer is default-initialised to an indeterminate value and has no destructor.\<close>

definition ptr_traits :: "(addr, addr, 'o) vec_traits" where
  "ptr_traits =
     \<lparr>construct = ptr_construct, destruct = ptr_destruct, move = ptr_move, copy = ptr_copy,
      default_init = Indeterminate, elem_dtor = (\<lambda>p h. Inr h)\<rparr>"

section \<open>Tagged runtime values: \<open>Val\<close>\<close>

text \<open>
  \<open>enum ValKind { I32, I64, F32, F64, ANYREF, FUNCREF }\<close>: the enumerators have the
  values 0 to 5, and \<open>is_num\<close>, \<open>is_ref\<close> compare them.
\<close>

datatype ValKind = I32 | I64 | F32 | F64 | ANYREF | FUNCREF

fun ValKind_value :: "ValKind \<Rightarrow> nat" where
  "ValKind_value I32 = 0"
| "ValKind_value I64 = 1"
| "ValKind_value F32 = 2"
| "ValKind_value F64 = 3"
| "ValKind_value ANYREF = 4"
| "ValKind_value FUNCREF = 5"

definition is_num :: "ValKind \<Rightarrow> bool" where
  "is_num k = (ValKind_value k < ValKind_value ANYREF)"

definition is_ref :: "ValKind \<Rightarrow> bool" where
  "is_ref k = (ValKind_value k \<ge> ValKind_value ANYREF)"

text \<open>
  The payload is a C union: exactly one member is active, the one written last. The
  floating-point members are kept as their bit patterns (wasm.hh asserts that \<open>float\<close>
  and \<open>double\<close> have the sizes of \<open>int32_t\<close> and \<open>int64_t\<close>); they are only stored
  and returned, never computed with.
\<close>

type_synonym int32_t = "32 word"
type_synonym int64_t = "64 word"
type_synonym float32_t = "32 word"
type_synonym float64_t = "64 word"

datatype impl =
    Impl_i32 int32_t
  | Impl_i64 int64_t
  | Impl_f32 float32_t
  | Impl_f64 float64_t
  | Impl_ref addr

record Val =
  kind_' :: ValKind
  impl_' :: impl

text \<open>The private constructor \<open>Val(ValKind, impl)\<close> and the six public ones.\<close>

definition Val_make :: "ValKind \<Rightarrow> impl \<Rightarrow> Val" where
  "Val_make kind impl = \<lparr>kind_' = kind, impl_' = impl\<rparr>"

definition Val_default :: Val where
  "Val_default = \<lparr>kind_' = ANYREF, impl_' = Impl_ref nullptr\<rparr>"

definition Val_int32 :: "int32_t \<Rightarrow> Val" where
  "Val_int32 i = \<lparr>kind_' = I32, impl_' = Impl_i32 i\<rparr>"

definition Val_int64 :: "int64_t \<Rightarrow> Val" where
  "Val_int64 i = \<lparr>kind_' = I64, impl_' = Impl_i64 i\<rparr>"

definition Val_float32 :: "float32_t \<Rightarrow> Val" where
  "Val_float32 z = \<lparr>kind_' = F32, impl_' = Impl_f32 z\<rparr>"

definition Val_float64 :: "float64_t \<Rightarrow> Val" where
  "Val_float64 z = \<lparr>kind_' = F64, impl_' = Impl_f64 z\<rparr>"

text \<open>
  \<open>Val(own<Ref*>&& r)\<close>: the result is the new value and what is left in \<open>r\<close> after
  \<open>r.release()\<close>.
\<close>

definition Val_own_ref :: "addr \<Rightarrow> Val \<times> addr" where
  "Val_own_ref r = (\<lparr>kind_' = ANYREF, impl_' = Impl_ref r\<rparr>, nullptr)"

text \<open>
  \<open>Val(Val&& that)\<close>: the result is the new value and \<open>that\<close> as the constructor
  leaves it.
\<close>

definition Val_move_ctor :: "Val \<Rightarrow> Val \<times> Val" where
  "Val_move_ctor that =
     (let this = \<lparr>kind_' = kind_' that, impl_' = impl_' that\<rparr>
      in (this, if is_ref (kind_' this) then that\<lparr>impl_' := Impl_ref nullptr\<rparr> else that))"

text \<open>\<open>void reset()\<close>; \<open>impl_'.ref\<close> is read only when the kind is a reference kind.\<close>

definition Val_reset :: "Val \<Rightarrow> ('c, 'o) heap \<Rightarrow> error + (Val \<times> ('c, 'o) heap)" where
  "Val_reset this h =
     (if is_ref (kind_' this)
      then (case impl_' this of
              Impl_ref p \<Rightarrow>
                (if p \<noteq> nullptr
                 then (case delete_obj p h of
                         Inl e \<Rightarrow> Inl e
                       | Inr h' \<Rightarrow> Inr (this\<lparr>impl_' := Impl_ref nullptr\<rparr>, h'))
                 else Inr (this, h))
            | _ \<Rightarrow> Inl UndefinedBehaviour)
      else Inr (this, h))"

text \<open>\<open>~Val()\<close>: the value is gone afterwards, only the store remains.\<close>

definition Val_dtor :: "Val \<Rightarrow> ('c, 'o) heap \<Rightarrow> error + ('c, 'o) heap" where
  "Val_dtor this h =
     (case Val_reset this h of Inl e \<Rightarrow> Inl e | Inr (this', h') \<Rightarrow> Inr h')"

text \<open>
  \<open>void reset(Val& that)\<close> and \<open>operator=(Val&& that)\<close>, for two distinct objects
  \<open>this\<close> and \<open>that\<close>: the result is \<open>this\<close>, \<open>that\<close> and the store afterwards.
\<close>

definition Val_reset_that :: "Val \<Rightarrow> Val \<Rightarrow> ('c, 'o) heap \<Rightarrow> error + (Val \<times> Val \<times> ('c, 'o) heap)" where
  "Val_reset_that this that h =
     (case Val_reset this h of
        Inl e \<Rightarrow> Inl e
      | Inr (this1, h1) \<Rightarrow>
          (let this2 = this1\<lparr>kind_' := kind_' that, impl_' := impl_' that\<rparr>
           in Inr (this2,
                   if is_ref (kind_' this2) then that\<lparr>impl_' := Impl_ref nullptr\<rparr> else that,
                   h1)))"

definition Val_move_assign :: "Val \<Rightarrow> Val \<Rightarrow> ('c, 'o) heap \<Rightarrow> error + (Val \<times> Val \<times> ('c, 'o) heap)" where
  "Val_move_assign this that h = Val_reset_that this that h"

text \<open>The accessors: the assertion first, then the read of the union member.\<close>

definition Val_kind :: "Val \<Rightarrow> ValKind" where
  "Val_kind this = kind_' this"

definition Val_i32 :: "Val \<Rightarrow> error + int32_t" where
  "Val_i32 this =
     (if kind_' this = I32
      then (case impl_' this of Impl_i32 x \<Rightarrow> Inr x | _ \<Rightarrow> Inl UndefinedBehaviour)
      else Inl AssertionFailed)"

definition Val_i64 :: "Val \<Rightarrow> error + int64_t" where
  "Val_i64 this =
     (if kind_' this = I64
      then (case impl_' this of Impl_i64 x \<Rightarrow> Inr x | _ \<Rightarrow> Inl UndefinedBehaviour)
      else Inl AssertionFailed)"

definition Val_f32 :: "Val \<Rightarrow> error + float32_t" where
  "Val_f32 this =
     (if kind_' this = F32
      then (case impl_' this of Impl_f32 x \<Rightarrow> Inr x | _ \<Rightarrow> Inl UndefinedBehaviour)
      else Inl AssertionFailed)"

definition Val_f64 :: "Val \<Rightarrow> error + float64_t" where
  "Val_f64 this =
     (if kind_' this = F64
      then (case impl_' this of Impl_f64 x \<Rightarrow> Inr x | _ \<Rightarrow> Inl UndefinedBehaviour)
      else Inl AssertionFailed)"

definition Val_ref :: "Val \<Rightarrow> error + addr" where
  "Val_ref this =
     (if is_ref (kind_' this)
      then (case impl_' this of Impl_ref p \<Rightarrow> Inr p | _ \<Rightarrow> Inl UndefinedBehaviour)
      else Inl AssertionFailed)"

text \<open>
  \<open>release_ref\<close>: \<open>auto ref = impl_'.ref; ref = nullptr; return own<Ref*>(ref);\<close>. The
  result is the returned handle and the value afterwards.
\<close>

definition Val_release_ref :: "Val \<Rightarrow> error + (addr \<times> Val)" where
  "Val_release_ref this =
     (if is_ref (kind_' this)
      then (case impl_' this of
              Impl_ref p \<Rightarrow>
                (let ref = p;
                     ref = nullptr
                 in Inr (ref, this))
            | _ \<Rightarrow> Inl UndefinedBehaviour)
      else Inl AssertionFailed)"

definition Val_copy :: "Val \<Rightarrow> ('c, 'o) heap \<Rightarrow> error + (Val \<times> ('c, 'o) heap)" where
  "Val_copy this h =
     (if is_ref (kind_' this)
      then (case impl_' this of
              Impl_ref p \<Rightarrow>
                (if p \<noteq> nullptr
                 then (case obj_copy p h of
                         Inl e \<Rightarrow> Inl e
                       | Inr (q, h') \<Rightarrow> Inr (Val_make (kind_' this) (Impl_ref q), h'))
                 else Inr (Val_make (kind_' this) (impl_' this), h))
            | _ \<Rightarrow> Inl UndefinedBehaviour)
      else Inr (Val_make (kind_' this) (impl_' this), h))"

text \<open>
  The invariant of the data model, in the spec's words: the payload interpreted must
  match \<open>kind\<close>, and only the two reference-kind tags carry a handle.
\<close>

fun payload_matches :: "ValKind \<Rightarrow> impl \<Rightarrow> bool" where
  "payload_matches I32 (Impl_i32 x) = True"
| "payload_matches I64 (Impl_i64 x) = True"
| "payload_matches F32 (Impl_f32 x) = True"
| "payload_matches F64 (Impl_f64 x) = True"
| "payload_matches ANYREF (Impl_ref p) = True"
| "payload_matches FUNCREF (Impl_ref p) = True"
| "payload_matches k m = False"

definition Val_wf :: "Val \<Rightarrow> bool" where
  "Val_wf v = payload_matches (kind_' v) (impl_' v)"

text \<open>Two values going out of scope one after the other, \<open>a\<close> first.\<close>

definition destroy_both :: "Val \<Rightarrow> Val \<Rightarrow> ('c, 'o) heap \<Rightarrow> error + ('c, 'o) heap" where
  "destroy_both a b h = (case Val_dtor a h of Inl e \<Rightarrow> Inl e | Inr h' \<Rightarrow> Val_dtor b h')"

text \<open>
  Ownership, in the spec's words: only the two reference-kind tags carry a heap-owned
  handle, and at most one Tagged Runtime Value owns a given handle at a time.
\<close>

definition Val_owns :: "Val \<Rightarrow> addr \<Rightarrow> bool" where
  "Val_owns v p = (p \<noteq> nullptr \<and> is_ref (kind_' v) \<and> impl_' v = Impl_ref p)"

definition single_owner :: "Val list \<Rightarrow> addr \<Rightarrow> bool" where
  "single_owner vs p = (length (filter (\<lambda>v. Val_owns v p) vs) \<le> 1)"

subsection \<open>\<open>vec_traits<T>\<close>: plain-value elements\<close>

text \<open>
  The primary template. \<open>move\<close> calls the element's own \<open>reset(T&)\<close> member, passed
  here as \<open>rs\<close> (for \<open>T = Val\<close> it is \<open>Val::reset(Val&)\<close>); \<open>copy\<close> assigns element by
  element. \<open>own<T>\<close> is \<open>T\<close> itself.
\<close>

definition plain_construct :: "size_t \<Rightarrow> addr \<Rightarrow> ('c, 'o) heap \<Rightarrow> error + ('c, 'o) heap" where
  "plain_construct sz data h = Inr h"

definition plain_destruct :: "size_t \<Rightarrow> addr \<Rightarrow> ('c, 'o) heap \<Rightarrow> error + ('c, 'o) heap" where
  "plain_destruct sz data h = Inr h"

function plain_move_loop ::
  "('c \<Rightarrow> 'c \<Rightarrow> ('c, 'o) heap \<Rightarrow> error + ('c \<times> 'c \<times> ('c, 'o) heap)) \<Rightarrow>
   nat \<Rightarrow> nat \<Rightarrow> addr \<Rightarrow> 'c list \<Rightarrow> ('c, 'o) heap \<Rightarrow> error + ('c list \<times> ('c, 'o) heap)" where
  "plain_move_loop rs i n data init h =
     (if i < n
      then (if i < length init
            then (case load data i h of
                    Inl e \<Rightarrow> Inl e
                  | Inr c \<Rightarrow>
                      (case rs c (init ! i) h of
                         Inl e \<Rightarrow> Inl e
                       | Inr (c', w', h1) \<Rightarrow>
                           (case store data i c' h1 of
                              Inl e \<Rightarrow> Inl e
                            | Inr h2 \<Rightarrow> plain_move_loop rs (Suc i) n data (init[i := w']) h2)))
            else Inl UndefinedBehaviour)
      else Inr (init, h))"
  by pat_completeness auto
termination
  by (relation "measure (\<lambda>(rs, i, n, data, init, h). n - i)") auto

declare plain_move_loop.simps [simp del]

definition plain_move ::
  "('c \<Rightarrow> 'c \<Rightarrow> ('c, 'o) heap \<Rightarrow> error + ('c \<times> 'c \<times> ('c, 'o) heap)) \<Rightarrow>
   size_t \<Rightarrow> addr \<Rightarrow> 'c list \<Rightarrow> ('c, 'o) heap \<Rightarrow> error + ('c list \<times> ('c, 'o) heap)" where
  "plain_move rs sz data init h = plain_move_loop rs 0 (unat sz) data init h"

function plain_copy_loop :: "nat \<Rightarrow> nat \<Rightarrow> addr \<Rightarrow> addr \<Rightarrow> ('c, 'o) heap \<Rightarrow> error + ('c, 'o) heap" where
  "plain_copy_loop i n data init h =
     (if i < n
      then (case load init i h of
              Inl e \<Rightarrow> Inl e
            | Inr c \<Rightarrow>
                (case store data i c h of
                   Inl e \<Rightarrow> Inl e
                 | Inr h' \<Rightarrow> plain_copy_loop (Suc i) n data init h'))
      else Inr h)"
  by pat_completeness auto
termination
  by (relation "measure (\<lambda>(i, n, data, init, h). n - i)") auto

declare plain_copy_loop.simps [simp del]

definition plain_copy :: "size_t \<Rightarrow> addr \<Rightarrow> addr \<Rightarrow> ('c, 'o) heap \<Rightarrow> error + ('c, 'o) heap" where
  "plain_copy sz data init h = plain_copy_loop 0 (unat sz) data init h"

definition plain_traits ::
  "('c \<Rightarrow> 'c \<Rightarrow> ('c, 'o) heap \<Rightarrow> error + ('c \<times> 'c \<times> ('c, 'o) heap)) \<Rightarrow> 'c cell \<Rightarrow>
   ('c \<Rightarrow> ('c, 'o) heap \<Rightarrow> error + ('c, 'o) heap) \<Rightarrow> ('c, 'c, 'o) vec_traits" where
  "plain_traits rs dflt dt =
     \<lparr>construct = plain_construct, destruct = plain_destruct, move = plain_move rs,
      copy = plain_copy, default_init = dflt, elem_dtor = dt\<rparr>"

text \<open>
  \<open>vec<Val>\<close>: \<open>new Val[n]\<close> runs the default constructor on every cell and
  \<open>delete[]\<close> runs \<open>~Val()\<close>.
\<close>

definition Val_traits :: "(Val, Val, 'o) vec_traits" where
  "Val_traits = plain_traits Val_reset_that (Cell Val_default) Val_dtor"

section \<open>Generic owning vectors: \<open>vec<T>\<close>\<close>

text \<open>
  \<open>data_'\<close> is the pointer held by the \<open>std::unique_ptr<T[]>\<close> member; the block it
  points to lives in the store.
\<close>

record vec =
  size_' :: size_t
  data_' :: addr

definition invalid_size :: size_t where
  "invalid_size = SIZE_MAX"

text \<open>
  \<open>delete[] p\<close>, run by the \<open>unique_ptr\<close> on a non-null pointer: the elements are
  destroyed last to first, then the block is released.
\<close>

fun destroy_elems ::
  "('c \<Rightarrow> ('c, 'o) heap \<Rightarrow> error + ('c, 'o) heap) \<Rightarrow> 'c cell list \<Rightarrow> ('c, 'o) heap \<Rightarrow> error + ('c, 'o) heap" where
  "destroy_elems dt [] h = Inr h"
| "destroy_elems dt (c # cs) h =
     (case destroy_elems dt cs h of
        Inl e \<Rightarrow> Inl e
      | Inr h' \<Rightarrow> (case c of Indeterminate \<Rightarrow> Inr h' | Cell x \<Rightarrow> dt x h'))"

definition delete_array ::
  "('c \<Rightarrow> ('c, 'o) heap \<Rightarrow> error + ('c, 'o) heap) \<Rightarrow> addr \<Rightarrow> ('c, 'o) heap \<Rightarrow> error + ('c, 'o) heap" where
  "delete_array dt p h =
     (case arrays h p of
        None \<Rightarrow> Inl UndefinedBehaviour
      | Some cs \<Rightarrow>
          (case destroy_elems dt cs h of
             Inl e \<Rightarrow> Inl e
           | Inr h' \<Rightarrow> Inr (h'\<lparr>arrays := (arrays h')(p := None)\<rparr>)))"

text \<open>
  The private constructor \<open>vec(size_t size, T* data)\<close>: it stores both fields and
  asserts \<open>!!size_ == !!data_ || size_ == invalid_size\<close>.
\<close>

definition vec_ctor :: "size_t \<Rightarrow> addr \<Rightarrow> error + vec" where
  "vec_ctor sz data =
     (let this = \<lparr>size_' = sz, data_' = data\<rparr>
      in if ((size_' this \<noteq> 0) = (data_' this \<noteq> nullptr)) \<or> size_' this = invalid_size
         then Inr this
         else Inl AssertionFailed)"

text \<open>
  The private constructor \<open>vec(size_t size)\<close>, which delegates to the one above with
  \<open>size ? new(std::nothrow) T[size] : nullptr\<close>; an exception out of the
  new-expression leaves the constructor.
\<close>

definition vec_alloc :: "('c, 'w, 'o) vec_traits \<Rightarrow> size_t \<Rightarrow> ('c, 'o) heap \<Rightarrow> error + (vec \<times> ('c, 'o) heap)" where
  "vec_alloc tr sz h =
     (case (if sz \<noteq> 0 then new_array (default_init tr) sz h else Inr (nullptr, h)) of
        Inl e \<Rightarrow> Inl e
      | Inr (data, h') \<Rightarrow>
          (case vec_ctor sz data of
             Inl e \<Rightarrow> Inl e
           | Inr this \<Rightarrow> Inr (this, h')))"

text \<open>
  \<open>vec(vec<U>&& that)\<close>: \<open>that.data_.release()\<close> hands over the pointer and leaves
  \<open>that.data_\<close> null; \<open>that.size_\<close> is not touched. The result is the new vector and
  \<open>that\<close> afterwards.
\<close>

definition vec_move_ctor :: "vec \<Rightarrow> error + (vec \<times> vec)" where
  "vec_move_ctor that =
     (let data = data_' that;
          that' = that\<lparr>data_' := nullptr\<rparr>
      in case vec_ctor (size_' that') data of
           Inl e \<Rightarrow> Inl e
         | Inr this \<Rightarrow> Inr (this, that'))"

text \<open>\<open>~vec()\<close>, followed by the destructor of the \<open>unique_ptr\<close> member.\<close>

definition vec_dtor :: "('c, 'w, 'o) vec_traits \<Rightarrow> vec \<Rightarrow> ('c, 'o) heap \<Rightarrow> error + ('c, 'o) heap" where
  "vec_dtor tr this h =
     (if data_' this \<noteq> nullptr
      then (case destruct tr (size_' this) (data_' this) h of
              Inl e \<Rightarrow> Inl e
            | Inr h' \<Rightarrow> delete_array (elem_dtor tr) (data_' this) h')
      else Inr h)"

definition vec_operator_bool :: "vec \<Rightarrow> bool" where
  "vec_operator_bool this = (size_' this \<noteq> invalid_size)"

definition vec_size :: "vec \<Rightarrow> size_t" where
  "vec_size this = size_' this"

definition vec_get :: "vec \<Rightarrow> addr" where
  "vec_get this = data_' this"

definition vec_release :: "vec \<Rightarrow> addr \<times> vec" where
  "vec_release this = (data_' this, this\<lparr>data_' := nullptr\<rparr>)"

text \<open>
  \<open>void reset(vec& that)\<close> and \<open>operator=(vec&& that)\<close> take \<open>that\<close> by
  reference, and \<open>that\<close> may be \<open>*this\<close>. The vector objects in scope are therefore
  kept in a table \<open>vs\<close> from object identities to their fields, and each statement of the
  body acts on the table in turn: \<open>size_ = that.size_\<close>, then \<open>that.data_.release()\<close>,
  which yields the pointer and leaves \<open>that.data_\<close> null, then \<open>data_.reset(p)\<close>, which
  stores \<open>p\<close> and deletes the block held just before, if any.
\<close>

type_synonym vec_ref = nat

definition vec_reset ::
  "('c, 'w, 'o) vec_traits \<Rightarrow> vec_ref \<Rightarrow> vec_ref \<Rightarrow> (vec_ref \<Rightarrow> vec) \<Rightarrow> ('c, 'o) heap \<Rightarrow>
   error + ((vec_ref \<Rightarrow> vec) \<times> ('c, 'o) heap)" where
  "vec_reset tr this that vs h =
     (let vs1 = vs(this := (vs this)\<lparr>size_' := size_' (vs that)\<rparr>);
          p = data_' (vs1 that);
          vs2 = vs1(that := (vs1 that)\<lparr>data_' := nullptr\<rparr>);
          old = data_' (vs2 this);
          vs3 = vs2(this := (vs2 this)\<lparr>data_' := p\<rparr>)
      in if old \<noteq> nullptr
         then (case delete_array (elem_dtor tr) old h of
                 Inl e \<Rightarrow> Inl e
               | Inr h' \<Rightarrow> Inr (vs3, h'))
         else Inr (vs3, h))"

definition vec_move_assign ::
  "('c, 'w, 'o) vec_traits \<Rightarrow> vec_ref \<Rightarrow> vec_ref \<Rightarrow> (vec_ref \<Rightarrow> vec) \<Rightarrow> ('c, 'o) heap \<Rightarrow>
   error + ((vec_ref \<Rightarrow> vec) \<times> ('c, 'o) heap)" where
  "vec_move_assign tr this that vs h = vec_reset tr this that vs h"

definition vec_copy :: "('c, 'w, 'o) vec_traits \<Rightarrow> vec \<Rightarrow> ('c, 'o) heap \<Rightarrow> error + (vec \<times> ('c, 'o) heap)" where
  "vec_copy tr this h =
     (case vec_alloc tr (size_' this) h of
        Inl e \<Rightarrow> Inl e
      | Inr (v, h1) \<Rightarrow>
          (if vec_operator_bool v
           then (case copy tr (size_' this) (data_' v) (data_' this) h1 of
                   Inl e \<Rightarrow> Inl e
                 | Inr h2 \<Rightarrow> Inr (v, h2))
           else Inr (v, h1)))"

definition vec_make_uninitialized :: "('c, 'w, 'o) vec_traits \<Rightarrow> size_t \<Rightarrow> ('c, 'o) heap \<Rightarrow> error + (vec \<times> ('c, 'o) heap)" where
  "vec_make_uninitialized tr sz h =
     (case vec_alloc tr sz h of
        Inl e \<Rightarrow> Inl e
      | Inr (v, h1) \<Rightarrow>
          (if vec_operator_bool v
           then (case construct tr sz (data_' v) h1 of
                   Inl e \<Rightarrow> Inl e
                 | Inr h2 \<Rightarrow> Inr (v, h2))
           else Inr (v, h1)))"

text \<open>
  \<open>make(size_t size, own<T> init[])\<close>: the result is the vector, the caller's array
  \<open>init\<close> afterwards and the store.
\<close>

definition vec_make :: "('c, 'w, 'o) vec_traits \<Rightarrow> size_t \<Rightarrow> 'w list \<Rightarrow> ('c, 'o) heap \<Rightarrow> error + (vec \<times> 'w list \<times> ('c, 'o) heap)" where
  "vec_make tr sz init h =
     (case vec_alloc tr sz h of
        Inl e \<Rightarrow> Inl e
      | Inr (v, h1) \<Rightarrow>
          (if vec_operator_bool v
           then (case move tr sz (data_' v) init h1 of
                   Inl e \<Rightarrow> Inl e
                 | Inr (init', h2) \<Rightarrow> Inr (v, init', h2))
           else Inr (v, init, h1)))"

text \<open>
  \<open>make_own\<close> wraps a value in its owner, and the variadic \<open>make(Ts&&... args)\<close>
  collects its arguments in a local array \<open>data\<close> and passes \<open>sizeof...(Ts)\<close> and
  \<open>data\<close> on; the local array dies with the call.
\<close>

definition make_own :: "'w \<Rightarrow> 'w" where
  "make_own x = x"

definition vec_make_args :: "('c, 'w, 'o) vec_traits \<Rightarrow> 'w list \<Rightarrow> ('c, 'o) heap \<Rightarrow> error + (vec \<times> ('c, 'o) heap)" where
  "vec_make_args tr args h =
     (let data = map make_own args
      in case vec_make tr (word_of_nat (length args)) data h of
           Inl e \<Rightarrow> Inl e
         | Inr (v, data', h') \<Rightarrow> Inr (v, h'))"

definition vec_adopt :: "size_t \<Rightarrow> addr \<Rightarrow> error + vec" where
  "vec_adopt sz data = vec_ctor sz data"

definition vec_invalid :: "error + vec" where
  "vec_invalid = vec_ctor invalid_size nullptr"

text \<open>
  The invariant of the data model, in the spec's words: \<open>size == 0\<close> iff \<open>data\<close> is
  empty, except in the invalid sentinel state, where \<open>data\<close> is empty while \<open>size\<close>
  holds the sentinel.
\<close>

definition vec_invariant :: "vec \<Rightarrow> bool" where
  "vec_invariant v =
     (if size_' v = invalid_size
      then data_' v = nullptr
      else ((size_' v = 0) = (data_' v = nullptr)))"

section \<open>Element proxies\<close>

text \<open>
  \<open>vec_traits<T*>::proxy\<close> holds \<open>T*& elem_\<close>, a reference to one slot \<open>data_[i]\<close>
  of a block: the block's address and the index. \<open>operator[]\<close> builds it without a
  bounds check; a proxy for a slot that does not exist fails when it is used.
\<close>

record proxy =
  elem_' :: "addr \<times> nat"

definition vec_index :: "vec \<Rightarrow> size_t \<Rightarrow> proxy" where
  "vec_index this i = \<lparr>elem_' = (data_' this, unat i)\<rparr>"

definition proxy_get :: "proxy \<Rightarrow> (addr, 'o) heap \<Rightarrow> error + addr" where
  "proxy_get this h = load (fst (elem_' this)) (snd (elem_' this)) h"

text \<open>
  \<open>reset(own<T*>&& val)\<close> and \<open>operator=(own<T*>&& elem)\<close>: the result is what is
  left in the caller's handle after \<open>val.release()\<close>, and the store.
\<close>

definition proxy_reset :: "proxy \<Rightarrow> addr \<Rightarrow> (addr, 'o) heap \<Rightarrow> error + (addr \<times> (addr, 'o) heap)" where
  "proxy_reset this val h =
     (case load (fst (elem_' this)) (snd (elem_' this)) h of
        Inl e \<Rightarrow> Inl e
      | Inr old \<Rightarrow>
          (case (if old \<noteq> nullptr then delete_obj old h else Inr h) of
             Inl e \<Rightarrow> Inl e
           | Inr h1 \<Rightarrow>
               (case store (fst (elem_' this)) (snd (elem_' this)) val h1 of
                  Inl e \<Rightarrow> Inl e
                | Inr h2 \<Rightarrow> Inr (nullptr, h2))))"

definition proxy_assign :: "proxy \<Rightarrow> addr \<Rightarrow> (addr, 'o) heap \<Rightarrow> error + (addr \<times> (addr, 'o) heap)" where
  "proxy_assign this elem h = proxy_reset this elem h"

definition proxy_release :: "proxy \<Rightarrow> (addr, 'o) heap \<Rightarrow> error + (addr \<times> (addr, 'o) heap)" where
  "proxy_release this h =
     (case load (fst (elem_' this)) (snd (elem_' this)) h of
        Inl e \<Rightarrow> Inl e
      | Inr elem \<Rightarrow>
          (case store (fst (elem_' this)) (snd (elem_' this)) nullptr h of
             Inl e \<Rightarrow> Inl e
           | Inr h' \<Rightarrow> Inr (elem, h')))"

definition proxy_move :: "proxy \<Rightarrow> (addr, 'o) heap \<Rightarrow> error + (addr \<times> (addr, 'o) heap)" where
  "proxy_move this h =
     (case proxy_release this h of
        Inl e \<Rightarrow> Inl e
      | Inr (p, h') \<Rightarrow> Inr (make_own p, h'))"

section \<open>Predicates on stores\<close>

text \<open>
  The allocator has never handed out an address beyond \<open>next_addr\<close>: every live block
  and object lies at or below it, so the next address is fresh.
\<close>

definition heap_wf :: "('c, 'o) heap \<Rightarrow> bool" where
  "heap_wf h = (\<forall>p. (objects h p \<noteq> None \<or> arrays h p \<noteq> None) \<longrightarrow> p \<le> next_addr h)"

text \<open>
  The slots \<open>i \<le> j < n\<close> of a block \<open>ds'\<close> as \<open>vec_traits<T*>::copy\<close> leaves them,
  given the source block \<open>cs\<close>, the target block \<open>ds\<close> before the loop and the stores
  before and after: where the source slot is non-null the target slot owns an object
  that did not exist before and has the state of the source's object; every other slot
  of the target is as it was.
\<close>

definition deep_slots ::
  "nat \<Rightarrow> nat \<Rightarrow> addr cell list \<Rightarrow> addr cell list \<Rightarrow> addr cell list \<Rightarrow>
   (addr, 'o) heap \<Rightarrow> (addr, 'o) heap \<Rightarrow> bool" where
  "deep_slots i n cs ds ds' h h' =
     (\<forall>j < length ds.
        if i \<le> j \<and> j < n \<and> cs ! j \<noteq> Cell nullptr
        then \<exists>p q. cs ! j = Cell p \<and> ds' ! j = Cell q \<and> q \<noteq> nullptr \<and>
               objects h q = None \<and> objects h' q = objects h p
        else ds' ! j = ds ! j)"

section \<open>Example stores\<close>

text \<open>
  An empty store whose allocator hands out \<open>k\<close> more cells. In all example stores
  blocks of up to \<open>2 ^ 60\<close> elements are within the implementation's limit.
\<close>

definition fresh_heap :: "nat \<Rightarrow> ('c, 'o) heap" where
  "fresh_heap k = \<lparr>arrays = Map.empty, objects = Map.empty, deleted = [], next_addr = 0, avail = k, max_length = 2 ^ 60\<rparr>"

text \<open>
  Two live objects at the addresses 1 and 2; the allocator of \<open>exhausted_heap\<close> refuses
  every request, the one of \<open>example_heap\<close> has eight cells left.
\<close>

definition exhausted_heap :: "(addr, nat) heap" where
  "exhausted_heap =
     \<lparr>arrays = Map.empty, objects = [1 \<mapsto> 10, 2 \<mapsto> 20], deleted = [], next_addr = 2, avail = 0,
      max_length = 2 ^ 60\<rparr>"

definition example_heap :: "(addr, nat) heap" where
  "example_heap =
     \<lparr>arrays = Map.empty, objects = [1 \<mapsto> 10, 2 \<mapsto> 20], deleted = [], next_addr = 2, avail = 8,
      max_length = 2 ^ 60\<rparr>"

text \<open>
  \<open>slot_heap\<close>: a block of two pointer slots at address 3, the first owning the object
  at 1. \<open>null_slot_heap\<close>: the store after \<open>make_uninitialized(1)\<close> on a fresh store,
  one block with one null slot.
\<close>

definition slot_heap :: "(addr, nat) heap" where
  "slot_heap =
     \<lparr>arrays = [3 \<mapsto> [Cell 1, Cell nullptr]], objects = [1 \<mapsto> 10, 2 \<mapsto> 20], deleted = [],
      next_addr = 3, avail = 8,
      max_length = 2 ^ 60\<rparr>"

definition null_slot_heap :: "(addr, nat) heap" where
  "null_slot_heap =
     \<lparr>arrays = [1 \<mapsto> [Cell nullptr]], objects = Map.empty, deleted = [], next_addr = 1, avail = 7,
      max_length = 2 ^ 60\<rparr>"

text \<open>
  Two vector objects in scope: object 0 is empty, object 1 holds a block of two slots
  at address 3.
\<close>

definition two_vecs :: "vec_ref \<Rightarrow> vec" where
  "two_vecs = (\<lambda>r. \<lparr>size_' = 0, data_' = nullptr\<rparr>)(1 := \<lparr>size_' = 2, data_' = 3\<rparr>)"

section \<open>Properties of the store and of the loops\<close>

lemma set_block_fields [simp]:
  "arrays (set_block d cs h) = (arrays h)(d \<mapsto> cs)"
  "objects (set_block d cs h) = objects h"
  "deleted (set_block d cs h) = deleted h"
  "next_addr (set_block d cs h) = next_addr h"
  "avail (set_block d cs h) = avail h"
  by (simp_all add: set_block_def)

lemma set_block_twice [simp]:
  "set_block d cs' (set_block d cs h) = set_block d cs' h"
  by (cases h) (simp add: set_block_def)

lemma set_block_same:
  "arrays h d = Some cs \<Longrightarrow> set_block d cs h = h"
  by (cases h) (simp add: set_block_def map_upd_triv)

lemma store_live:
  "arrays h data = Some cs \<Longrightarrow> i < length cs \<Longrightarrow>
   store data i c h = Inr (set_block data (cs[i := Cell c]) h)"
  by (simp add: store_def)

lemma load_live:
  "arrays h data = Some cs \<Longrightarrow> i < length cs \<Longrightarrow> cs ! i = Cell c \<Longrightarrow> load data i h = Inr c"
  by (simp add: load_def)

lemma load_indeterminate:
  "arrays h data = Some cs \<Longrightarrow> i < length cs \<Longrightarrow> cs ! i = Indeterminate \<Longrightarrow>
   load data i h = Inl UndefinedBehaviour"
  by (simp add: load_def)

lemma take_Suc_update:
  "i < length cs \<Longrightarrow> take (Suc i) (cs[i := x]) = take i cs @ [x]"
  by (simp add: take_Suc_conv_app_nth)

lemma ptr_construct_loop_fills:
  "arrays h data = Some cs \<Longrightarrow> length cs = n \<Longrightarrow> i \<le> n \<Longrightarrow>
   ptr_construct_loop i n data h =
     Inr (set_block data (take i cs @ replicate (n - i) (Cell nullptr)) h)"
proof (induction i n data h arbitrary: cs rule: ptr_construct_loop.induct)
  case (1 i n data h)
  show ?case
  proof (cases "i < n")
    case True
    let ?h' = "set_block data (cs[i := Cell nullptr]) h"
    have st: "store data i nullptr h = Inr ?h'"
      using "1.prems" True by (simp add: store_live)
    have eq: "take (Suc i) (cs[i := Cell nullptr]) @ replicate (n - Suc i) (Cell nullptr)
        = take i cs @ replicate (n - i) (Cell nullptr)"
      using True "1.prems" by (simp add: take_Suc_update replicate_app_Cons_same Suc_diff_Suc flip: replicate_Suc)
    have "ptr_construct_loop (Suc i) n data ?h' =
            Inr (set_block data (take i cs @ replicate (n - i) (Cell nullptr)) h)"
      using "1.IH" [OF True st, of "cs[i := Cell nullptr]"] "1.prems" True
      by (simp add: eq)
    then show ?thesis
      using True st by (subst ptr_construct_loop.simps) simp
  next
    case False
    with "1.prems" have "i = n" by simp
    with "1.prems" show ?thesis
      by (subst ptr_construct_loop.simps) (simp add: set_block_same)
  qed
qed

lemma ptr_construct_fills:
  "arrays h data = Some cs \<Longrightarrow> length cs = unat sz \<Longrightarrow>
   ptr_construct sz data h = Inr (set_block data (replicate (unat sz) (Cell nullptr)) h)"
  using ptr_construct_loop_fills [of h data cs "unat sz" 0] by (simp add: ptr_construct_def)

lemma ptr_construct_zero: "ptr_construct 0 data h = Inr h"
  by (simp add: ptr_construct_def ptr_construct_loop.simps)

section \<open>Vectors: construction, validity and the invariant\<close>

lemma vec_ctor_eq:
  "vec_ctor sz d =
     (if ((sz \<noteq> 0) = (d \<noteq> nullptr)) \<or> sz = invalid_size
      then Inr \<lparr>size_' = sz, data_' = d\<rparr> else Inl AssertionFailed)"
  by (simp add: vec_ctor_def Let_def)

lemma alloc_block_fields [simp]:
  "arrays (alloc_block dflt n h) = (arrays h)(Suc (next_addr h) \<mapsto> replicate (unat n) dflt)"
  "objects (alloc_block dflt n h) = objects h"
  "deleted (alloc_block dflt n h) = deleted h"
  "next_addr (alloc_block dflt n h) = Suc (next_addr h)"
  "avail (alloc_block dflt n h) = avail h - unat n"
  "max_length (alloc_block dflt n h) = max_length h"
  by (simp_all add: alloc_block_def)

lemma new_array_ok:
  "can_allocate n h \<Longrightarrow> new_array dflt n h = Inr (Suc (next_addr h), alloc_block dflt n h)"
  by (simp add: new_array_def)

lemma new_array_fail:
  "\<not> can_allocate n h \<Longrightarrow>
   new_array dflt n h = (if max_length h < unat n then Inl BadArrayNewLength else Inr (nullptr, h))"
  by (simp add: new_array_def)

lemma not_can_allocate_invalid: "\<not> can_allocate invalid_size h"
  by (simp add: can_allocate_def invalid_size_def)

lemma vec_alloc_zero: "vec_alloc tr 0 h = Inr (\<lparr>size_' = 0, data_' = nullptr\<rparr>, h)"
  by (simp add: vec_alloc_def vec_ctor_eq)

lemma vec_alloc_ok:
  "sz \<noteq> 0 \<Longrightarrow> can_allocate sz h \<Longrightarrow>
   vec_alloc tr sz h =
     Inr (\<lparr>size_' = sz, data_' = Suc (next_addr h)\<rparr>, alloc_block (default_init tr) sz h)"
  by (simp add: vec_alloc_def vec_ctor_eq new_array_ok)

lemma vec_alloc_fail:
  "sz \<noteq> 0 \<Longrightarrow> \<not> can_allocate sz h \<Longrightarrow>
   vec_alloc tr sz h =
     (if max_length h < unat sz then Inl BadArrayNewLength
      else if sz = invalid_size then Inr (\<lparr>size_' = sz, data_' = nullptr\<rparr>, h)
      else Inl AssertionFailed)"
  by (simp add: vec_alloc_def vec_ctor_eq new_array_fail)

lemma vec_alloc_invariant:
  "vec_alloc tr sz h = Inr (v, h') \<Longrightarrow>
   size_' v = sz \<and> (((sz \<noteq> 0) = (data_' v \<noteq> nullptr)) \<or> sz = invalid_size)"
  by (auto simp: vec_alloc_def vec_ctor_eq new_array_def can_allocate_def
      split: sum.splits prod.splits if_splits)

lemma vec_make_uninitialized_zero_ptr:
  "vec_make_uninitialized ptr_traits 0 h = Inr (\<lparr>size_' = 0, data_' = nullptr\<rparr>, h)"
  by (simp add: vec_make_uninitialized_def vec_alloc_zero vec_operator_bool_def invalid_size_def
      SIZE_MAX_def ptr_traits_def ptr_construct_zero)

lemma vec_make_uninitialized_zero_plain:
  "vec_make_uninitialized (plain_traits rs dflt dt) 0 h = Inr (\<lparr>size_' = 0, data_' = nullptr\<rparr>, h)"
  by (simp add: vec_make_uninitialized_def vec_alloc_zero vec_operator_bool_def invalid_size_def
      SIZE_MAX_def plain_traits_def plain_construct_def)

lemma can_allocate_valid: "can_allocate n h \<Longrightarrow> n \<noteq> invalid_size"
  by (simp add: can_allocate_def invalid_size_def)

lemma vec_make_uninitialized_ok_ptr:
  assumes "n \<noteq> 0" "can_allocate n h"
  shows "vec_make_uninitialized ptr_traits n h =
     Inr (\<lparr>size_' = n, data_' = Suc (next_addr h)\<rparr>,
          set_block (Suc (next_addr h)) (replicate (unat n) (Cell nullptr))
            (alloc_block Indeterminate n h))"
proof -
  let ?a = "Suc (next_addr h)"
  let ?h1 = "alloc_block (Indeterminate :: addr cell) n h"
  have al: "vec_alloc ptr_traits n h = Inr (\<lparr>size_' = n, data_' = ?a\<rparr>, ?h1)"
    using assms by (simp add: vec_alloc_ok ptr_traits_def)
  have blk: "arrays ?h1 ?a = Some (replicate (unat n) Indeterminate)"
    using assms by (simp add: new_array_ok)
  have "ptr_construct n ?a ?h1 = Inr (set_block ?a (replicate (unat n) (Cell nullptr)) ?h1)"
    using ptr_construct_fills [OF blk] by simp
  then show ?thesis
    using al can_allocate_valid [OF assms(2)]
    by (simp add: vec_make_uninitialized_def vec_operator_bool_def ptr_traits_def)
qed

lemma vec_make_uninitialized_ok_plain:
  assumes "n \<noteq> 0" "can_allocate n h"
  shows "vec_make_uninitialized (plain_traits rs dflt dt) n h =
     Inr (\<lparr>size_' = n, data_' = Suc (next_addr h)\<rparr>, alloc_block dflt n h)"
  using assms can_allocate_valid [OF assms(2)]
  by (simp add: vec_make_uninitialized_def vec_alloc_ok vec_operator_bool_def plain_traits_def
      plain_construct_def)

text \<open>
  C5. For every \<open>n\<close>, when the allocation succeeds (or \<open>n = 0\<close>, where nothing is
  allocated), \<open>make_uninitialized(n)\<close> returns a vector that is valid (\<open>operator bool\<close>
  is true) and has \<open>size() = n\<close>; for owned-pointer elements every one of its \<open>n\<close>
  slots reads as null. The first conjunct is \<open>vec<T*>\<close>, the second \<open>vec<T>\<close> for plain
  elements.
\<close>

theorem make_uninitialized_valid:
  assumes "n = 0 \<or> can_allocate n h" and "n = 0 \<or> can_allocate n g"
  shows "(\<exists>v h'. vec_make_uninitialized ptr_traits n h = Inr (v, h') \<and>
            vec_operator_bool v \<and> vec_size v = n \<and>
            (\<forall>i < unat n. load (vec_get v) i h' = Inr nullptr)) \<and>
         (\<exists>v g'. vec_make_uninitialized (plain_traits rs dflt dt) n g = Inr (v, g') \<and>
            vec_operator_bool v \<and> vec_size v = n)"
proof (cases "n = 0")
  case True
  then show ?thesis
    by (simp add: vec_make_uninitialized_zero_ptr vec_make_uninitialized_zero_plain
        vec_operator_bool_def vec_size_def invalid_size_def SIZE_MAX_def)
next
  case False
  with assms have ca: "can_allocate n h" "can_allocate n g" by simp_all
  have valid: "n \<noteq> invalid_size" by (rule can_allocate_valid [OF ca(1)])
  have "\<forall>i < unat n. load (Suc (next_addr h)) i
          (set_block (Suc (next_addr h)) (replicate (unat n) (Cell nullptr))
            (alloc_block Indeterminate n h)) = Inr nullptr"
    by (simp add: load_def)
  then show ?thesis
    using False valid
    by (simp add: vec_make_uninitialized_ok_ptr [OF False ca(1)]
        vec_make_uninitialized_ok_plain [OF False ca(2)]
        vec_operator_bool_def vec_size_def vec_get_def)
qed

theorem make_uninitialized_valid_witness:
  "(3 = (0 :: size_t) \<or> can_allocate 3 (fresh_heap 8 :: (addr, nat) heap)) \<and>
   (3 = (0 :: size_t) \<or> can_allocate 3 (fresh_heap 8 :: (Val, nat) heap)) \<and>
   (\<exists>v h'. vec_make_uninitialized ptr_traits 3 (fresh_heap 8 :: (addr, nat) heap) = Inr (v, h') \<and>
            vec_operator_bool v \<and> vec_size v = 3 \<and>
            (\<forall>i < unat (3 :: size_t). load (vec_get v) i h' = Inr nullptr)) \<and>
   (\<exists>v g'. vec_make_uninitialized Val_traits 3 (fresh_heap 8 :: (Val, nat) heap) = Inr (v, g') \<and>
            vec_operator_bool v \<and> vec_size v = 3)"
proof -
  have a: "3 = (0 :: size_t) \<or> can_allocate 3 (fresh_heap 8 :: (addr, nat) heap)"
    by (simp add: can_allocate_def fresh_heap_def SIZE_MAX_def)
  have b: "3 = (0 :: size_t) \<or> can_allocate 3 (fresh_heap 8 :: (Val, nat) heap)"
    by (simp add: can_allocate_def fresh_heap_def SIZE_MAX_def)
  show ?thesis
    using a b make_uninitialized_valid [OF a b, of Val_reset_that "Cell Val_default" Val_dtor]
    unfolding Val_traits_def by blast
qed

lemma invalid_size_nonzero: "invalid_size \<noteq> 0"
  by (simp add: invalid_size_def SIZE_MAX_def)

text \<open>
  The constructor's assertion is weaker than the invariant in one place: it lets the
  sentinel size through with any data pointer.
\<close>

lemma vec_ctor_invariant:
  "vec_invariant \<lparr>size_' = sz, data_' = d\<rparr> \<Longrightarrow> vec_ctor sz d = Inr \<lparr>size_' = sz, data_' = d\<rparr>"
  using invalid_size_nonzero by (auto simp: vec_ctor_eq vec_invariant_def)

lemma vec_ctor_returns:
  "vec_ctor sz d = Inr v \<Longrightarrow>
   v = \<lparr>size_' = sz, data_' = d\<rparr> \<and> (vec_invariant v \<or> (sz = invalid_size \<and> d \<noteq> nullptr))"
  using invalid_size_nonzero by (auto simp: vec_ctor_eq vec_invariant_def split: if_splits)

lemma vec_alloc_vec_invariant:
  "vec_alloc tr sz h = Inr (v, h') \<Longrightarrow> vec_invariant v"
  using invalid_size_nonzero
  by (auto simp: vec_alloc_def vec_ctor_eq vec_invariant_def new_array_def can_allocate_def
      invalid_size_def split: sum.splits prod.splits if_splits)

lemma vec_make_uninitialized_invariant:
  "vec_make_uninitialized tr n h = Inr (v, h') \<Longrightarrow> vec_invariant v"
  by (auto simp: vec_make_uninitialized_def split: sum.splits prod.splits if_splits
      dest: vec_alloc_vec_invariant)

lemma vec_make_invariant:
  "vec_make tr n init h = Inr (v, init', h') \<Longrightarrow> vec_invariant v"
  by (auto simp: vec_make_def split: sum.splits prod.splits if_splits
      dest: vec_alloc_vec_invariant)

lemma vec_make_args_invariant:
  "vec_make_args tr args h = Inr (v, h') \<Longrightarrow> vec_invariant v"
  by (auto simp: vec_make_args_def split: sum.splits prod.splits dest: vec_make_invariant)

lemma vec_copy_invariant:
  "vec_copy tr this h = Inr (v, h') \<Longrightarrow> vec_invariant v"
  by (auto simp: vec_copy_def split: sum.splits prod.splits if_splits
      dest: vec_alloc_vec_invariant)

lemma vec_invalid_invariant:
  "vec_invalid = Inr \<lparr>size_' = invalid_size, data_' = nullptr\<rparr> \<and>
   vec_invariant \<lparr>size_' = invalid_size, data_' = nullptr\<rparr>"
  by (simp add: vec_invalid_def vec_ctor_eq vec_invariant_def)

lemma vec_adopt_sentinel_with_data:
  "vec_adopt SIZE_MAX 3 = Inr \<lparr>size_' = invalid_size, data_' = 3\<rparr> \<and>
   \<not> vec_invariant \<lparr>size_' = invalid_size, data_' = 3\<rparr>"
  by (simp add: vec_adopt_def vec_ctor_eq vec_invariant_def invalid_size_def)

lemma vec_move_ctor_eq:
  "vec_move_ctor that =
     (if ((size_' that \<noteq> 0) = (data_' that \<noteq> nullptr)) \<or> size_' that = invalid_size
      then Inr (that, that\<lparr>data_' := nullptr\<rparr>) else Inl AssertionFailed)"
  by (cases that) (auto simp: vec_move_ctor_def vec_ctor_eq Let_def)

lemma vec_move_ctor_invariant:
  "vec_invariant that \<Longrightarrow> vec_move_ctor that = Inr (that, that\<lparr>data_' := nullptr\<rparr>)"
  using invalid_size_nonzero
  by (cases "data_' that = nullptr") (simp_all add: vec_move_ctor_eq vec_invariant_def split: if_splits)

text \<open>
  \<open>reset\<close> and move assignment. With two distinct objects the target takes over size
  and block of the source, the block the target held is deleted, and the source keeps
  its size with an empty data block. With \<open>that\<close> being \<open>*this\<close> nothing changes.
\<close>

lemma vec_reset_distinct:
  assumes "this \<noteq> that"
  shows "vec_reset tr this that vs h =
     (if data_' (vs this) \<noteq> nullptr
      then (case delete_array (elem_dtor tr) (data_' (vs this)) h of
              Inl e \<Rightarrow> Inl e
            | Inr h' \<Rightarrow> Inr (vs(this := vs that, that := (vs that)\<lparr>data_' := nullptr\<rparr>), h'))
      else Inr (vs(this := vs that, that := (vs that)\<lparr>data_' := nullptr\<rparr>), h))"
proof -
  have eq: "(vs this)\<lparr>size_' := size_' (vs that), data_' := data_' (vs that)\<rparr> = vs that"
    by (cases "vs this"; cases "vs that") simp
  let ?vs1 = "vs(this := (vs this)\<lparr>size_' := size_' (vs that)\<rparr>)"
  let ?vs2 = "?vs1(that := (?vs1 that)\<lparr>data_' := nullptr\<rparr>)"
  let ?vs3 = "?vs2(this := (?vs2 this)\<lparr>data_' := data_' (?vs1 that)\<rparr>)"
  have "?vs3 r = (vs(this := vs that, that := (vs that)\<lparr>data_' := nullptr\<rparr>)) r" for r
    using assms eq by simp
  then have fin: "?vs3 = vs(this := vs that, that := (vs that)\<lparr>data_' := nullptr\<rparr>)"
    by (rule ext)
  have old: "data_' (?vs2 this) = data_' (vs this)"
    using assms by simp
  show ?thesis
    unfolding vec_reset_def Let_def fin old by simp
qed

lemma vec_reset_self: "vec_reset tr this this vs h = Inr (vs, h)"
proof -
  have "(vs this)\<lparr>size_' := size_' (vs this), data_' := data_' (vs this)\<rparr> = vs this"
    by (cases "vs this") simp
  then have "vs(this := (vs this)\<lparr>size_' := size_' (vs this), data_' := data_' (vs this)\<rparr>) = vs"
    by (simp add: fun_eq_iff)
  then show ?thesis
    by (simp add: vec_reset_def Let_def)
qed

lemma vec_alloc_exhausted:
  "n \<noteq> 0 \<Longrightarrow> n \<noteq> invalid_size \<Longrightarrow> \<not> can_allocate n h \<Longrightarrow> unat n \<le> max_length h \<Longrightarrow>
   vec_alloc tr n h = Inl AssertionFailed"
  by (simp add: vec_alloc_fail)

lemma vec_make_uninitialized_exhausted:
  "n \<noteq> 0 \<Longrightarrow> n \<noteq> invalid_size \<Longrightarrow> \<not> can_allocate n h \<Longrightarrow> unat n \<le> max_length h \<Longrightarrow>
   vec_make_uninitialized tr n h = Inl AssertionFailed"
  by (simp add: vec_make_uninitialized_def vec_alloc_exhausted)

lemma vec_make_exhausted:
  "n \<noteq> 0 \<Longrightarrow> n \<noteq> invalid_size \<Longrightarrow> \<not> can_allocate n h \<Longrightarrow> unat n \<le> max_length h \<Longrightarrow>
   vec_make tr n init h = Inl AssertionFailed"
  by (simp add: vec_make_def vec_alloc_exhausted)

lemma vec_copy_exhausted:
  "size_' this \<noteq> 0 \<Longrightarrow> size_' this \<noteq> invalid_size \<Longrightarrow> \<not> can_allocate (size_' this) h \<Longrightarrow>
   unat (size_' this) \<le> max_length h \<Longrightarrow> vec_copy tr this h = Inl AssertionFailed"
  by (simp add: vec_copy_def vec_alloc_exhausted)

text \<open>
  The one size for which a refused allocation can give the sentinel is \<open>SIZE_MAX\<close>
  itself, because the requested size then happens to be \<open>invalid_size\<close>; and it does
  so only where a block of that many elements is within the implementation's limit
  (one-byte elements at best). Beyond the limit the factory throws.
\<close>

lemma vec_make_uninitialized_SIZE_MAX:
  "vec_make_uninitialized tr SIZE_MAX h =
     (if max_length h < unat SIZE_MAX then Inl BadArrayNewLength
      else Inr (\<lparr>size_' = invalid_size, data_' = nullptr\<rparr>, h))"
  using not_can_allocate_invalid [of h] invalid_size_nonzero
  by (simp add: vec_make_uninitialized_def vec_alloc_fail vec_operator_bool_def invalid_size_def)

text \<open>
  C1. The claim is that a factory whose backing allocation fails returns the invalid
  sentinel. On the code, with the allocator exhausted, \<open>make_uninitialized(2)\<close>,
  \<open>make(2, init)\<close> and the variadic \<open>make\<close> reach \<open>vec(2, nullptr)\<close>, whose
  assertion fails, for pointer elements and for \<open>vec<Val>\<close> alike: no vector is
  returned. The last conjunct is about the fields that constructor has stored at that
  point: \<open>operator bool\<close> is true on them, so they are not the sentinel either.
\<close>

theorem factories_abort_on_allocation_failure:
  "\<not> can_allocate 2 exhausted_heap \<and>
   vec_make_uninitialized ptr_traits 2 exhausted_heap = Inl AssertionFailed \<and>
   vec_make ptr_traits 2 [1, 2] exhausted_heap = Inl AssertionFailed \<and>
   vec_make_args ptr_traits [1, 2] exhausted_heap = Inl AssertionFailed \<and>
   vec_make_uninitialized Val_traits 2 (fresh_heap 0 :: (Val, nat) heap) = Inl AssertionFailed \<and>
   vec_make Val_traits 2 [Val_int32 1, Val_int32 2] (fresh_heap 0 :: (Val, nat) heap) =
     Inl AssertionFailed \<and>
   vec_operator_bool \<lparr>size_' = 2, data_' = nullptr\<rparr>"
proof -
  have na: "\<not> can_allocate 2 exhausted_heap" "\<not> can_allocate 2 (fresh_heap 0 :: (Val, nat) heap)"
    by (simp_all add: can_allocate_def exhausted_heap_def fresh_heap_def)
  have nz: "(2 :: size_t) \<noteq> 0" "(2 :: size_t) \<noteq> invalid_size"
    by (simp_all add: invalid_size_def SIZE_MAX_def)
  have ml: "unat (2 :: size_t) \<le> max_length exhausted_heap"
    "unat (2 :: size_t) \<le> max_length (fresh_heap 0 :: (Val, nat) heap)"
    by (simp_all add: exhausted_heap_def fresh_heap_def)
  show ?thesis
    using na nz ml
    by (simp add: vec_make_uninitialized_exhausted vec_make_exhausted vec_make_args_def
        vec_operator_bool_def)
qed

text \<open>
  C6. \<open>invalid()\<close> yields a vector whose boolean conversion is false;
  \<open>make_uninitialized(0)\<close> yields, for pointer and for plain elements, a vector whose
  boolean conversion is true and whose \<open>size()\<close> is 0, without touching the store.
\<close>

theorem invalid_distinct_from_empty:
  "vec_invalid = Inr \<lparr>size_' = invalid_size, data_' = nullptr\<rparr> \<and>
   \<not> vec_operator_bool \<lparr>size_' = invalid_size, data_' = nullptr\<rparr> \<and>
   vec_make_uninitialized ptr_traits 0 h = Inr (\<lparr>size_' = 0, data_' = nullptr\<rparr>, h) \<and>
   vec_make_uninitialized (plain_traits rs dflt dt) 0 g = Inr (\<lparr>size_' = 0, data_' = nullptr\<rparr>, g) \<and>
   vec_operator_bool \<lparr>size_' = 0, data_' = nullptr\<rparr> \<and>
   vec_size \<lparr>size_' = 0, data_' = nullptr\<rparr> = 0"
  by (simp add: vec_invalid_def vec_ctor_eq vec_operator_bool_def vec_size_def
      vec_make_uninitialized_zero_ptr vec_make_uninitialized_zero_plain invalid_size_def SIZE_MAX_def)

lemma example_can_allocate: "can_allocate 2 example_heap"
  by (simp add: can_allocate_def example_heap_def SIZE_MAX_def)

lemma example_make:
  "\<exists>h'. vec_make ptr_traits 2 [1, 2] example_heap = Inr (\<lparr>size_' = 2, data_' = 3\<rparr>, [nullptr, nullptr], h')"
  using example_can_allocate
  by (simp add: vec_make_def vec_alloc_ok ptr_traits_def vec_operator_bool_def
      invalid_size_def SIZE_MAX_def ptr_move_def ptr_move_loop.simps store_def example_heap_def
      alloc_block_def set_block_def)

text \<open>
  C4. The claim is that every vector reachable through the public operations satisfies
  the invariant. On the code, the vector \<open>v\<close> built by \<open>make_uninitialized(2)\<close>
  satisfies it, and so does the vector move-constructed from \<open>v\<close>; but the constructor
  releases \<open>v.data_\<close> and leaves \<open>v.size_\<close> alone, so \<open>v\<close> is left with size 2 and
  an empty data block, which is not the sentinel state: the invariant is broken. The
  state also fails the assertion the constructor itself makes (moving from \<open>v\<close> once
  more aborts). \<open>reset\<close> and move assignment from object 1 into object 0 leave their
  source in the same state; only self-assignment leaves it intact.
\<close>

theorem moved_from_vec_breaks_invariant:
  "map_sum id fst (vec_make_uninitialized ptr_traits 2 (fresh_heap 8 :: (addr, nat) heap)) =
     Inr \<lparr>size_' = 2, data_' = 1\<rparr> \<and>
   vec_invariant \<lparr>size_' = 2, data_' = 1\<rparr> \<and>
   vec_move_ctor \<lparr>size_' = 2, data_' = 1\<rparr> =
     Inr (\<lparr>size_' = 2, data_' = 1\<rparr>, \<lparr>size_' = 2, data_' = nullptr\<rparr>) \<and>
   \<not> vec_invariant \<lparr>size_' = 2, data_' = nullptr\<rparr> \<and>
   vec_operator_bool \<lparr>size_' = 2, data_' = nullptr\<rparr> \<and>
   vec_move_ctor \<lparr>size_' = 2, data_' = nullptr\<rparr> = Inl AssertionFailed \<and>
   vec_invariant (two_vecs 1) \<and>
   vec_reset ptr_traits 0 1 two_vecs example_heap =
     Inr (two_vecs(0 := \<lparr>size_' = 2, data_' = 3\<rparr>, 1 := \<lparr>size_' = 2, data_' = nullptr\<rparr>),
          example_heap) \<and>
   vec_move_assign ptr_traits 0 1 two_vecs example_heap =
     Inr (two_vecs(0 := \<lparr>size_' = 2, data_' = 3\<rparr>, 1 := \<lparr>size_' = 2, data_' = nullptr\<rparr>),
          example_heap) \<and>
   vec_move_assign ptr_traits 1 1 two_vecs example_heap = Inr (two_vecs, example_heap)"
proof -
  have ca: "can_allocate 2 (fresh_heap 8 :: (addr, nat) heap)"
    by (simp add: can_allocate_def fresh_heap_def SIZE_MAX_def)
  have mk: "vec_make_uninitialized ptr_traits 2 (fresh_heap 8 :: (addr, nat) heap) =
     Inr (\<lparr>size_' = 2, data_' = 1\<rparr>,
          set_block 1 (replicate 2 (Cell nullptr)) (alloc_block Indeterminate 2 (fresh_heap 8)))"
    using vec_make_uninitialized_ok_ptr [OF _ ca] by (simp add: fresh_heap_def)
  have mv: "vec_move_ctor \<lparr>size_' = 2, data_' = 1\<rparr> =
       Inr (\<lparr>size_' = 2, data_' = 1\<rparr>, \<lparr>size_' = 2, data_' = nullptr\<rparr>)"
    "vec_move_ctor \<lparr>size_' = 2, data_' = nullptr\<rparr> = Inl AssertionFailed"
    by (simp_all add: vec_move_ctor_eq invalid_size_def SIZE_MAX_def)
  have iv: "vec_invariant \<lparr>size_' = 2, data_' = 1\<rparr>" "\<not> vec_invariant \<lparr>size_' = 2, data_' = nullptr\<rparr>"
    "vec_operator_bool \<lparr>size_' = 2, data_' = nullptr\<rparr>" "vec_invariant (two_vecs 1)"
    by (simp_all add: vec_invariant_def vec_operator_bool_def two_vecs_def invalid_size_def
        SIZE_MAX_def)
  have rs: "vec_reset ptr_traits 0 1 two_vecs example_heap =
     Inr (two_vecs(0 := \<lparr>size_' = 2, data_' = 3\<rparr>, 1 := \<lparr>size_' = 2, data_' = nullptr\<rparr>),
          example_heap)"
    using vec_reset_distinct [of 0 1 ptr_traits two_vecs example_heap]
    by (simp add: two_vecs_def)
  have self: "vec_move_assign ptr_traits 1 1 two_vecs example_heap = Inr (two_vecs, example_heap)"
    by (simp add: vec_move_assign_def vec_reset_self)
  show ?thesis
    using mk mv iv rs self by (simp add: vec_move_assign_def)
qed

section \<open>Values: ownership of the reference handle\<close>

lemma is_ref_iff: "is_ref k = (k = ANYREF \<or> k = FUNCREF)"
  by (cases k) (simp_all add: is_ref_def)

lemma is_num_iff: "is_num k = (\<not> is_ref k)"
  by (cases k) (simp_all add: is_ref_def is_num_def)

lemma delete_obj_live:
  "objects h p = Some ob \<Longrightarrow>
   delete_obj p h = Inr (h\<lparr>objects := (objects h)(p := None), deleted := deleted h @ [p]\<rparr>)"
  by (simp add: delete_obj_def)

lemma Val_reset_null:
  "is_ref (kind_' v) \<Longrightarrow> impl_' v = Impl_ref nullptr \<Longrightarrow> Val_reset v h = Inr (v, h)"
  by (simp add: Val_reset_def)

lemma Val_reset_num:
  "\<not> is_ref (kind_' v) \<Longrightarrow> Val_reset v h = Inr (v, h)"
  by (simp add: Val_reset_def)

lemma Val_reset_owner:
  "is_ref (kind_' v) \<Longrightarrow> impl_' v = Impl_ref p \<Longrightarrow> p \<noteq> nullptr \<Longrightarrow> objects h p = Some ob \<Longrightarrow>
   Val_reset v h =
     Inr (v\<lparr>impl_' := Impl_ref nullptr\<rparr>,
          h\<lparr>objects := (objects h)(p := None), deleted := deleted h @ [p]\<rparr>)"
  by (simp add: Val_reset_def delete_obj_live)

lemma Val_dtor_null:
  "is_ref (kind_' v) \<Longrightarrow> impl_' v = Impl_ref nullptr \<Longrightarrow> Val_dtor v h = Inr h"
  by (simp add: Val_dtor_def Val_reset_null)

lemma Val_dtor_owner:
  "is_ref (kind_' v) \<Longrightarrow> impl_' v = Impl_ref p \<Longrightarrow> p \<noteq> nullptr \<Longrightarrow> objects h p = Some ob \<Longrightarrow>
   Val_dtor v h = Inr (h\<lparr>objects := (objects h)(p := None), deleted := deleted h @ [p]\<rparr>)"
  by (simp add: Val_dtor_def Val_reset_owner)

text \<open>
  C10. A default-constructed \<open>Val\<close> has kind \<open>ANYREF\<close>, a reference kind, with a
  null reference payload: \<open>ref()\<close> returns null, and \<open>reset()\<close> and the destructor
  leave the store as it is, deleting nothing.
\<close>

theorem Val_default_holds_nothing:
  "Val_kind Val_default = ANYREF \<and> is_ref (Val_kind Val_default) \<and>
   impl_' Val_default = Impl_ref nullptr \<and>
   Val_ref Val_default = Inr nullptr \<and>
   Val_reset Val_default h = Inr (Val_default, h) \<and>
   Val_dtor Val_default h = Inr h"
  by (simp add: Val_default_def Val_kind_def Val_ref_def Val_reset_def Val_dtor_def is_ref_iff)

lemma Val_owns_iff:
  "Val_owns \<lparr>kind_' = k, impl_' = m\<rparr> p = (p \<noteq> nullptr \<and> is_ref k \<and> m = Impl_ref p)"
  by (simp add: Val_owns_def)

lemma null_handle_owns_nothing: "\<not> Val_owns (fst (Val_own_ref nullptr)) q"
  by (auto simp: Val_own_ref_def Val_owns_def)

lemma single_owner_with_null_handle: "single_owner [v, fst (Val_own_ref nullptr)] q"
  by (simp add: single_owner_def null_handle_owns_nothing)

text \<open>
  C2, as stated, fails in its last clause. \<open>release_ref\<close> on the value that owns the
  object at 1 returns a null handle and leaves the value as it was; a value built from
  the returned handle owns nothing, so of the two values exactly one owns the handle:
  the discipline that at most one value owns a given handle at a time is kept, and
  destructing both deletes the object once.
\<close>

theorem release_ref_keeps_single_owner:
  "Val_release_ref (fst (Val_own_ref 1)) = Inr (nullptr, fst (Val_own_ref 1)) \<and>
   Val_owns (fst (Val_own_ref 1)) 1 \<and>
   \<not> Val_owns (fst (Val_own_ref nullptr)) 1 \<and>
   single_owner [fst (Val_own_ref 1), fst (Val_own_ref nullptr)] 1 \<and>
   destroy_both (fst (Val_own_ref nullptr)) (fst (Val_own_ref 1)) example_heap =
     Inr (example_heap\<lparr>objects := (objects example_heap)(1 := None),
                        deleted := deleted example_heap @ [1]\<rparr>)"
proof -
  have r: "is_ref ANYREF" by (simp add: is_ref_def)
  have d1: "Val_dtor (fst (Val_own_ref nullptr)) example_heap = Inr example_heap"
    using r by (simp add: Val_dtor_null Val_own_ref_def)
  have d2: "Val_dtor (fst (Val_own_ref 1)) example_heap =
     Inr (example_heap\<lparr>objects := (objects example_heap)(1 := None),
                        deleted := deleted example_heap @ [1]\<rparr>)"
    using r by (intro Val_dtor_owner [where ob = 10]) (simp_all add: Val_own_ref_def example_heap_def)
  show ?thesis
    using r d1 d2
    by (simp add: destroy_both_def single_owner_with_null_handle)
       (simp add: Val_release_ref_def Val_own_ref_def Val_owns_def)
qed

text \<open>
  C2, amended. On a reference-kind \<open>Val\<close> holding the handle \<open>p\<close>, \<open>release_ref\<close>
  nulls a local copy of the handle, not the stored field: it returns a null handle and
  leaves the value as it was, so \<open>ref()\<close> still yields \<open>p\<close> and ownership has not
  left the value. The value stays the one owner of \<open>p\<close>: a value built from the
  returned handle owns nothing, at most one of the two owns \<open>p\<close>, the destructor of
  the value still deletes \<open>p\<close>, and destructing both deletes \<open>p\<close> exactly once.
\<close>

theorem release_ref_keeps_the_handle:
  assumes "is_ref (kind_' v)" and "impl_' v = Impl_ref p"
  shows "Val_release_ref v = Inr (nullptr, v) \<and> Val_ref v = Inr p \<and>
         (p \<noteq> nullptr \<and> objects h p = Some ob \<longrightarrow>
            Val_dtor v h = Inr (h\<lparr>objects := (objects h)(p := None), deleted := deleted h @ [p]\<rparr>)) \<and>
         (p \<noteq> nullptr \<longrightarrow> Val_owns v p) \<and>
         \<not> Val_owns (fst (Val_own_ref nullptr)) p \<and>
         single_owner [v, fst (Val_own_ref nullptr)] p \<and>
         (p \<noteq> nullptr \<and> objects h p = Some ob \<longrightarrow>
            destroy_both (fst (Val_own_ref nullptr)) v h =
              Inr (h\<lparr>objects := (objects h)(p := None), deleted := deleted h @ [p]\<rparr>) \<and>
            destroy_both v (fst (Val_own_ref nullptr)) h =
              Inr (h\<lparr>objects := (objects h)(p := None), deleted := deleted h @ [p]\<rparr>))"
proof -
  have r: "is_ref (kind_' (fst (Val_own_ref nullptr)))" "impl_' (fst (Val_own_ref nullptr)) = Impl_ref nullptr"
    by (simp_all add: Val_own_ref_def is_ref_def)
  have rel: "Val_release_ref v = Inr (nullptr, v) \<and> Val_ref v = Inr p"
    using assms by (simp add: Val_release_ref_def Val_ref_def)
  have own: "p \<noteq> nullptr \<longrightarrow> Val_owns v p"
    using assms by (simp add: Val_owns_def)
  have dt: "Val_dtor v h = Inr (h\<lparr>objects := (objects h)(p := None), deleted := deleted h @ [p]\<rparr>)"
    if "p \<noteq> nullptr" "objects h p = Some ob"
    using that by (rule Val_dtor_owner [OF assms])
  have both: "destroy_both (fst (Val_own_ref nullptr)) v h =
        Inr (h\<lparr>objects := (objects h)(p := None), deleted := deleted h @ [p]\<rparr>) \<and>
      destroy_both v (fst (Val_own_ref nullptr)) h =
        Inr (h\<lparr>objects := (objects h)(p := None), deleted := deleted h @ [p]\<rparr>)"
    if "p \<noteq> nullptr" "objects h p = Some ob"
    by (simp add: destroy_both_def Val_dtor_null [OF r] dt [OF that])
  show ?thesis
    using rel own dt both null_handle_owns_nothing [of p]
      single_owner_with_null_handle [of v p]
    by blast
qed

theorem release_ref_keeps_the_handle_witness:
  "is_ref (kind_' (fst (Val_own_ref 1))) \<and> impl_' (fst (Val_own_ref 1)) = Impl_ref 1 \<and>
   Val_release_ref (fst (Val_own_ref 1)) = Inr (nullptr, fst (Val_own_ref 1)) \<and>
   Val_ref (fst (Val_own_ref 1)) = Inr 1 \<and>
   (1 :: addr) \<noteq> nullptr \<and> objects example_heap 1 = Some 10 \<and>
   Val_dtor (fst (Val_own_ref 1)) example_heap =
     Inr (example_heap\<lparr>objects := (objects example_heap)(1 := None),
                        deleted := deleted example_heap @ [1]\<rparr>) \<and>
   Val_owns (fst (Val_own_ref 1)) 1 \<and>
   single_owner [fst (Val_own_ref 1), fst (Val_own_ref nullptr)] 1 \<and>
   destroy_both (fst (Val_own_ref 1)) (fst (Val_own_ref nullptr)) example_heap =
     Inr (example_heap\<lparr>objects := (objects example_heap)(1 := None),
                        deleted := deleted example_heap @ [1]\<rparr>)"
proof -
  have a: "is_ref (kind_' (fst (Val_own_ref 1)))"
    by (simp add: Val_own_ref_def is_ref_iff)
  have b: "impl_' (fst (Val_own_ref 1)) = Impl_ref 1"
    by (simp add: Val_own_ref_def)
  have c: "(1 :: addr) \<noteq> nullptr \<and> objects example_heap 1 = Some 10"
    by (simp add: example_heap_def)
  show ?thesis
    using a b c release_ref_keeps_the_handle [OF a b, of example_heap 10] by blast
qed

lemma Val_wf_ctors:
  "Val_wf Val_default" "Val_wf (Val_int32 i)" "Val_wf (Val_int64 j)"
  "Val_wf (Val_float32 x)" "Val_wf (Val_float64 y)" "Val_wf (fst (Val_own_ref r))"
  by (simp_all add: Val_wf_def Val_default_def Val_int32_def Val_int64_def Val_float32_def
      Val_float64_def Val_own_ref_def)

lemma Val_wf_ref: "Val_wf v \<Longrightarrow> is_ref (kind_' v) \<Longrightarrow> \<exists>p. impl_' v = Impl_ref p"
  by (cases "kind_' v"; cases "impl_' v") (simp_all add: Val_wf_def is_ref_def)

lemma Val_wf_null: "is_ref (kind_' v) \<Longrightarrow> Val_wf (v\<lparr>impl_' := Impl_ref nullptr\<rparr>)"
  by (cases "kind_' v") (simp_all add: Val_wf_def is_ref_def)

lemma Val_wf_move_ctor:
  "Val_wf that \<Longrightarrow> Val_wf (fst (Val_move_ctor that)) \<and> Val_wf (snd (Val_move_ctor that))"
  by (simp add: Val_move_ctor_def Let_def Val_wf_null) (simp add: Val_wf_def)

lemma Val_wf_reset: "Val_wf v \<Longrightarrow> Val_reset v h = Inr (v', h') \<Longrightarrow> Val_wf v'"
  by (auto simp: Val_reset_def Val_wf_null split: if_splits impl.splits sum.splits)

lemma Val_wf_reset_that:
  "Val_wf that \<Longrightarrow> Val_reset_that this that h = Inr (this', that', h') \<Longrightarrow> Val_wf this' \<and> Val_wf that'"
  by (auto simp: Val_reset_that_def Let_def Val_wf_null split: sum.splits prod.splits if_splits)
     (simp_all add: Val_wf_def)

lemma Val_wf_copy: "Val_wf v \<Longrightarrow> Val_copy v h = Inr (v', h') \<Longrightarrow> Val_wf v'"
  by (cases "kind_' v")
     (auto simp: Val_copy_def Val_make_def Val_wf_def is_ref_def
        split: if_splits impl.splits sum.splits prod.splits)

text \<open>
  C9. Each payload accessor asserts that the stored kind is its own: on a mismatch the
  assertion fails, which is not a value the caller can recover from; on a match, for a
  value whose payload matches its kind, it returns exactly the stored payload.
\<close>

theorem Val_accessors_checked:
  "(\<forall>v. Val_wf v \<and> kind_' v = I32 \<longrightarrow> (\<exists>a. impl_' v = Impl_i32 a \<and> Val_i32 v = Inr a)) \<and>
   (\<forall>v. kind_' v \<noteq> I32 \<longrightarrow> Val_i32 v = Inl AssertionFailed) \<and>
   (\<forall>v. Val_wf v \<and> kind_' v = I64 \<longrightarrow> (\<exists>a. impl_' v = Impl_i64 a \<and> Val_i64 v = Inr a)) \<and>
   (\<forall>v. kind_' v \<noteq> I64 \<longrightarrow> Val_i64 v = Inl AssertionFailed) \<and>
   (\<forall>v. Val_wf v \<and> kind_' v = F32 \<longrightarrow> (\<exists>a. impl_' v = Impl_f32 a \<and> Val_f32 v = Inr a)) \<and>
   (\<forall>v. kind_' v \<noteq> F32 \<longrightarrow> Val_f32 v = Inl AssertionFailed) \<and>
   (\<forall>v. Val_wf v \<and> kind_' v = F64 \<longrightarrow> (\<exists>a. impl_' v = Impl_f64 a \<and> Val_f64 v = Inr a)) \<and>
   (\<forall>v. kind_' v \<noteq> F64 \<longrightarrow> Val_f64 v = Inl AssertionFailed) \<and>
   (\<forall>v. Val_wf v \<and> is_ref (kind_' v) \<longrightarrow> (\<exists>p. impl_' v = Impl_ref p \<and> Val_ref v = Inr p)) \<and>
   (\<forall>v. \<not> is_ref (kind_' v) \<longrightarrow> Val_ref v = Inl AssertionFailed)"
proof -
  have m: "\<And>v. Val_wf v \<Longrightarrow> kind_' v = I32 \<Longrightarrow> \<exists>a. impl_' v = Impl_i32 a"
    "\<And>v. Val_wf v \<Longrightarrow> kind_' v = I64 \<Longrightarrow> \<exists>a. impl_' v = Impl_i64 a"
    "\<And>v. Val_wf v \<Longrightarrow> kind_' v = F32 \<Longrightarrow> \<exists>a. impl_' v = Impl_f32 a"
    "\<And>v. Val_wf v \<Longrightarrow> kind_' v = F64 \<Longrightarrow> \<exists>a. impl_' v = Impl_f64 a"
    subgoal for v by (cases "impl_' v") (simp_all add: Val_wf_def)
    subgoal for v by (cases "impl_' v") (simp_all add: Val_wf_def)
    subgoal for v by (cases "impl_' v") (simp_all add: Val_wf_def)
    subgoal for v by (cases "impl_' v") (simp_all add: Val_wf_def)
    done
  show ?thesis
    by (auto simp: Val_i32_def Val_i64_def Val_f32_def Val_f64_def Val_ref_def
        dest: m Val_wf_ref)
qed

theorem Val_accessors_checked_witness:
  "Val_i32 (Val_int32 5) = Inr 5 \<and> Val_i32 (Val_int64 6) = Inl AssertionFailed \<and>
   Val_i64 (Val_int64 6) = Inr 6 \<and> Val_i64 (Val_int32 5) = Inl AssertionFailed \<and>
   Val_f32 (Val_float32 7) = Inr 7 \<and> Val_f32 (Val_int32 5) = Inl AssertionFailed \<and>
   Val_f64 (Val_float64 8) = Inr 8 \<and> Val_f64 (Val_int32 5) = Inl AssertionFailed \<and>
   Val_ref (fst (Val_own_ref 1)) = Inr 1 \<and> Val_ref (Val_int32 5) = Inl AssertionFailed"
proof -
  note th = Val_accessors_checked
  have k: "kind_' (Val_int32 5) = I32" "kind_' (Val_int64 6) = I64" "kind_' (Val_float32 7) = F32"
    "kind_' (Val_float64 8) = F64" "kind_' (fst (Val_own_ref 1)) = ANYREF"
    by (simp_all add: Val_int32_def Val_int64_def Val_float32_def Val_float64_def Val_own_ref_def)
  have p: "impl_' (Val_int32 5) = Impl_i32 5" "impl_' (Val_int64 6) = Impl_i64 6"
    "impl_' (Val_float32 7) = Impl_f32 7" "impl_' (Val_float64 8) = Impl_f64 8"
    "impl_' (fst (Val_own_ref 1)) = Impl_ref 1"
    by (simp_all add: Val_int32_def Val_int64_def Val_float32_def Val_float64_def Val_own_ref_def)
  have r: "is_ref ANYREF" "\<not> is_ref I32"
    by (simp_all add: is_ref_def)
  have "Val_i32 (Val_int32 5) = Inr 5"
    using th Val_wf_ctors(2) [of 5] k(1) p(1) by (metis impl.inject(1))
  moreover have "Val_i64 (Val_int64 6) = Inr 6"
    using th Val_wf_ctors(3) [of 6] k(2) p(2) by (metis impl.inject(2))
  moreover have "Val_f32 (Val_float32 7) = Inr 7"
    using th Val_wf_ctors(4) [of 7] k(3) p(3) by (metis impl.inject(3))
  moreover have "Val_f64 (Val_float64 8) = Inr 8"
    using th Val_wf_ctors(5) [of 8] k(4) p(4) by (metis impl.inject(4))
  moreover have "Val_ref (fst (Val_own_ref 1)) = Inr 1"
    using th Val_wf_ctors(6) [of 1] k(5) p(5) r(1) by (metis impl.inject(5))
  moreover have "Val_i32 (Val_int64 6) = Inl AssertionFailed" "Val_i64 (Val_int32 5) = Inl AssertionFailed"
    "Val_f32 (Val_int32 5) = Inl AssertionFailed" "Val_f64 (Val_int32 5) = Inl AssertionFailed"
    "Val_ref (Val_int32 5) = Inl AssertionFailed"
    using th k r by simp_all
  ultimately show ?thesis by simp
qed

text \<open>
  C7. Moving a reference-kind \<open>Val\<close> that owns the live object \<open>p\<close>, by move
  construction or by move assignment, gives the destination the tag and payload of the
  source and nulls the handle stored in the source; destructing source and destination,
  in either order, deletes \<open>p\<close> exactly once. For move assignment \<open>h1\<close> is the store
  after the target has dropped what it held before.
\<close>

theorem Val_move_deletes_once:
  fixes h :: "('c, 'o) heap"
  assumes ref: "is_ref (kind_' that)" and pay: "impl_' that = Impl_ref p"
    and nn: "p \<noteq> nullptr" and live: "objects h p = Some ob"
  shows "Val_move_ctor that = (that, that\<lparr>impl_' := Impl_ref nullptr\<rparr>) \<and>
    destroy_both (that\<lparr>impl_' := Impl_ref nullptr\<rparr>) that h =
      Inr (h\<lparr>objects := (objects h)(p := None), deleted := deleted h @ [p]\<rparr>) \<and>
    destroy_both that (that\<lparr>impl_' := Impl_ref nullptr\<rparr>) h =
      Inr (h\<lparr>objects := (objects h)(p := None), deleted := deleted h @ [p]\<rparr>) \<and>
    (\<forall>this this1 h1. Val_reset this h = Inr (this1, h1) \<and> objects h1 p = Some ob \<longrightarrow>
       Val_move_assign this that h = Inr (that, that\<lparr>impl_' := Impl_ref nullptr\<rparr>, h1) \<and>
       destroy_both (that\<lparr>impl_' := Impl_ref nullptr\<rparr>) that h1 =
         Inr (h1\<lparr>objects := (objects h1)(p := None), deleted := deleted h1 @ [p]\<rparr>) \<and>
       destroy_both that (that\<lparr>impl_' := Impl_ref nullptr\<rparr>) h1 =
         Inr (h1\<lparr>objects := (objects h1)(p := None), deleted := deleted h1 @ [p]\<rparr>))"
proof -
  let ?src = "that\<lparr>impl_' := Impl_ref nullptr\<rparr>"
  have src: "is_ref (kind_' ?src)" "impl_' ?src = Impl_ref nullptr"
    using ref by simp_all
  have mv: "Val_move_ctor that = (that, ?src)"
    using ref by (simp add: Val_move_ctor_def Let_def)
  have both: "destroy_both ?src that g =
        Inr (g\<lparr>objects := (objects g)(p := None), deleted := deleted g @ [p]\<rparr>) \<and>
      destroy_both that ?src g =
        Inr (g\<lparr>objects := (objects g)(p := None), deleted := deleted g @ [p]\<rparr>)"
    if "objects g p = Some ob" for g :: "('c, 'o) heap"
    by (simp add: destroy_both_def Val_dtor_null [OF src] Val_dtor_owner [OF ref pay nn that])
  have asg: "Val_move_assign this that h = Inr (that, ?src, h1)"
    if "Val_reset this h = Inr (this1, h1)" for this this1 h1
    using that ref by (cases that; cases this1) (simp add: Val_move_assign_def Val_reset_that_def Let_def)
  show ?thesis
    using mv both [OF live] both asg by blast
qed


theorem Val_move_deletes_once_witness:
  "is_ref (kind_' (fst (Val_own_ref 1))) \<and> impl_' (fst (Val_own_ref 1)) = Impl_ref 1 \<and>
   (1 :: addr) \<noteq> nullptr \<and> objects example_heap 1 = Some 10 \<and>
   Val_move_ctor (fst (Val_own_ref 1)) =
     (fst (Val_own_ref 1), (fst (Val_own_ref 1))\<lparr>impl_' := Impl_ref nullptr\<rparr>) \<and>
   destroy_both ((fst (Val_own_ref 1))\<lparr>impl_' := Impl_ref nullptr\<rparr>) (fst (Val_own_ref 1)) example_heap =
     Inr (example_heap\<lparr>objects := (objects example_heap)(1 := None),
                        deleted := deleted example_heap @ [1]\<rparr>) \<and>
   Val_reset (Val_int32 5) example_heap = Inr (Val_int32 5, example_heap) \<and>
   Val_move_assign (Val_int32 5) (fst (Val_own_ref 1)) example_heap =
     Inr (fst (Val_own_ref 1), (fst (Val_own_ref 1))\<lparr>impl_' := Impl_ref nullptr\<rparr>, example_heap)"
proof -
  let ?T = "fst (Val_own_ref 1)"
  have a: "is_ref (kind_' ?T)"
    by (simp add: Val_own_ref_def is_ref_def)
  have b: "impl_' ?T = Impl_ref 1"
    by (simp add: Val_own_ref_def)
  have c: "(1 :: addr) \<noteq> nullptr"
    by simp
  have d: "objects example_heap 1 = Some 10"
    by (simp add: example_heap_def)
  have e: "Val_reset (Val_int32 5) example_heap = Inr (Val_int32 5, example_heap)"
    by (simp add: Val_reset_def Val_int32_def is_ref_def)
  note th = Val_move_deletes_once [OF a b c d]
  show ?thesis
    using a b c d e th by blast
qed

section \<open>Element proxies: assignment and release\<close>

text \<open>
  C8. For a proxy bound to an initialised slot that is null or owns a live object:
  \<open>reset\<close> and \<open>operator=\<close> delete the object the slot owned, install the new
  handle in the slot, empty the caller's handle and change nothing else; \<open>release\<close> and
  \<open>move\<close> return the slot's pointer to the caller, leave the slot null and delete
  nothing.
\<close>

theorem proxy_assignment_frame:
  assumes blk: "arrays h d = Some cs" and idx: "i < length cs" and cell: "cs ! i = Cell old"
    and own: "old = nullptr \<or> objects h old = Some ob"
  shows "proxy_reset \<lparr>elem_' = (d, i)\<rparr> new h =
      Inr (nullptr,
           if old = nullptr
           then h\<lparr>arrays := (arrays h)(d \<mapsto> cs[i := Cell new])\<rparr>
           else h\<lparr>arrays := (arrays h)(d \<mapsto> cs[i := Cell new]),
                  objects := (objects h)(old := None),
                  deleted := deleted h @ [old]\<rparr>) \<and>
    proxy_assign \<lparr>elem_' = (d, i)\<rparr> new h = proxy_reset \<lparr>elem_' = (d, i)\<rparr> new h \<and>
    proxy_release \<lparr>elem_' = (d, i)\<rparr> h =
      Inr (old, h\<lparr>arrays := (arrays h)(d \<mapsto> cs[i := Cell nullptr])\<rparr>) \<and>
    proxy_move \<lparr>elem_' = (d, i)\<rparr> h =
      Inr (old, h\<lparr>arrays := (arrays h)(d \<mapsto> cs[i := Cell nullptr])\<rparr>)"
proof -
  have ld: "load d i h = Inr old"
    using blk idx cell by (rule load_live)
  have rel: "proxy_release \<lparr>elem_' = (d, i)\<rparr> h =
      Inr (old, h\<lparr>arrays := (arrays h)(d \<mapsto> cs[i := Cell nullptr])\<rparr>)"
    using ld store_live [OF blk idx] by (simp add: proxy_release_def set_block_def)
  have rst: "proxy_reset \<lparr>elem_' = (d, i)\<rparr> new h =
      Inr (nullptr,
           if old = nullptr
           then h\<lparr>arrays := (arrays h)(d \<mapsto> cs[i := Cell new])\<rparr>
           else h\<lparr>arrays := (arrays h)(d \<mapsto> cs[i := Cell new]),
                  objects := (objects h)(old := None),
                  deleted := deleted h @ [old]\<rparr>)"
  proof (cases "old = nullptr")
    case True
    then show ?thesis
      using ld store_live [OF blk idx] by (simp add: proxy_reset_def set_block_def)
  next
    case False
    with own have live: "objects h old = Some ob" by simp
    let ?h1 = "h\<lparr>objects := (objects h)(old := None), deleted := deleted h @ [old]\<rparr>"
    have "arrays ?h1 d = Some cs" using blk by simp
    from store_live [OF this idx] show ?thesis
      using False ld delete_obj_live [OF live]
      by (simp add: proxy_reset_def set_block_def)
  qed
  show ?thesis
    using rel rst by (simp add: proxy_assign_def proxy_move_def make_own_def)
qed

theorem proxy_assignment_frame_witness:
  "arrays slot_heap 3 = Some [Cell 1, Cell nullptr] \<and> 0 < length [Cell (1 :: addr), Cell nullptr] \<and>
   [Cell (1 :: addr), Cell nullptr] ! 0 = Cell 1 \<and>
   ((1 :: addr) = nullptr \<or> objects slot_heap 1 = Some 10) \<and>
   proxy_reset (vec_index \<lparr>size_' = 2, data_' = 3\<rparr> 0) 2 slot_heap =
     Inr (nullptr,
          slot_heap\<lparr>arrays := (arrays slot_heap)(3 \<mapsto> [Cell 2, Cell nullptr]),
                     objects := (objects slot_heap)(1 := None),
                     deleted := deleted slot_heap @ [1]\<rparr>) \<and>
   proxy_release (vec_index \<lparr>size_' = 2, data_' = 3\<rparr> 0) slot_heap =
     Inr (1, slot_heap\<lparr>arrays := (arrays slot_heap)(3 \<mapsto> [Cell nullptr, Cell nullptr])\<rparr>)"
proof -
  have a: "arrays slot_heap 3 = Some [Cell 1, Cell nullptr]"
    by (simp add: slot_heap_def)
  have b: "0 < length [Cell (1 :: addr), Cell nullptr]"
    by simp
  have c: "[Cell (1 :: addr), Cell nullptr] ! 0 = Cell 1"
    by simp
  have d: "(1 :: addr) = nullptr \<or> objects slot_heap 1 = Some 10"
    by (simp add: slot_heap_def)
  have e: "vec_index \<lparr>size_' = 2, data_' = 3\<rparr> 0 = \<lparr>elem_' = (3, 0)\<rparr>"
    by (simp add: vec_index_def)
  show ?thesis
    using a b c d proxy_assignment_frame [OF a b c d, of 2] unfolding e by simp
qed

section \<open>Vectors: what \<open>copy()\<close> does slot by slot\<close>

lemma obj_copy_ok:
  assumes "objects h p = Some ob" and "1 \<le> avail h"
  shows "obj_copy p h =
     Inr (Suc (next_addr h),
          h\<lparr>objects := (objects h)(Suc (next_addr h) \<mapsto> ob),
            next_addr := Suc (next_addr h), avail := avail h - 1\<rparr>)"
  using assms by (simp add: obj_copy_def Let_def)

lemma heap_wf_fresh: "heap_wf h \<Longrightarrow> objects h (Suc (next_addr h)) = None \<and> arrays h (Suc (next_addr h)) = None"
  by (force simp: heap_wf_def)

lemma plain_copy_loop_copies:
  assumes "arrays h init = Some cs" and "arrays h data = Some ds" and "data \<noteq> init"
    and "n \<le> length cs" and "n \<le> length ds" and "i \<le> n"
    and "\<forall>j < n. cs ! j \<noteq> Indeterminate"
  shows "plain_copy_loop i n data init h =
     Inr (set_block data (take i ds @ drop i (take n cs) @ drop n ds) h)"
  using assms
proof (induction i n data init h arbitrary: ds rule: plain_copy_loop.induct)
  case (1 i n data init h)
  show ?case
  proof (cases "i < n")
    case True
    then obtain c where c: "cs ! i = Cell c"
      using "1.prems"(7) by (cases "cs ! i") auto
    have ld: "load init i h = Inr c"
      using "1.prems" True c by (simp add: load_def)
    let ?h' = "set_block data (ds[i := Cell c]) h"
    have st: "store data i c h = Inr ?h'"
      using "1.prems" True by (simp add: store_live)
    have ih: "plain_copy_loop (Suc i) n data init ?h' =
        Inr (set_block data (take (Suc i) (ds[i := Cell c]) @ drop (Suc i) (take n cs) @
               drop n (ds[i := Cell c])) ?h')"
      using "1.IH" [OF True ld st, of "ds[i := Cell c]"] "1.prems" True by simp
    have eq: "take (Suc i) (ds[i := Cell c]) @ drop (Suc i) (take n cs) @ drop n (ds[i := Cell c])
        = take i ds @ drop i (take n cs) @ drop n ds"
    proof -
      have "drop i (take n cs) = Cell c # drop (Suc i) (take n cs)"
        using True "1.prems"(4) c by (simp add: Cons_nth_drop_Suc [symmetric])
      moreover have "take (Suc i) (ds[i := Cell c]) = take i ds @ [Cell c]"
        using True "1.prems"(5) by (simp add: take_Suc_update)
      moreover have "drop n (ds[i := Cell c]) = drop n ds"
        using True by simp
      ultimately show ?thesis by simp
    qed
    have "plain_copy_loop (Suc i) n data init ?h' =
        Inr (set_block data (take i ds @ drop i (take n cs) @ drop n ds) h)"
      using ih by (simp only: eq set_block_twice)
    then show ?thesis
      using True ld st by (subst plain_copy_loop.simps) simp
  next
    case False
    with "1.prems" have "i = n" by simp
    with "1.prems" show ?thesis
      by (subst plain_copy_loop.simps) (simp add: set_block_same)
  qed
qed

lemma vec_copy_plain:
  assumes sz: "size_' this \<noteq> 0" and ca: "can_allocate (size_' this) h"
    and blk: "arrays h (data_' this) = Some cs" and len: "length cs = unat (size_' this)"
    and init: "\<forall>c \<in> set cs. c \<noteq> Indeterminate" and wf: "heap_wf h"
  shows "vec_copy (plain_traits rs dflt dt) this h =
     Inr (\<lparr>size_' = size_' this, data_' = Suc (next_addr h)\<rparr>,
          set_block (Suc (next_addr h)) cs (alloc_block dflt (size_' this) h))"
proof -
  let ?n = "size_' this"
  let ?a = "Suc (next_addr h)"
  let ?h1 = "alloc_block dflt ?n h"
  have al: "vec_alloc (plain_traits rs dflt dt) ?n h = Inr (\<lparr>size_' = ?n, data_' = ?a\<rparr>, ?h1)"
    using sz ca by (simp add: vec_alloc_ok plain_traits_def)
  have ne: "?a \<noteq> data_' this"
    using heap_wf_fresh [OF wf] blk by auto
  have b1: "arrays ?h1 (data_' this) = Some cs"
    using ca blk ne by (simp add: new_array_ok)
  have b2: "arrays ?h1 ?a = Some (replicate (unat ?n) dflt)"
    using ca by (simp add: new_array_ok)
  have "plain_copy_loop 0 (unat ?n) ?a (data_' this) ?h1 =
      Inr (set_block ?a (take 0 (replicate (unat ?n) dflt) @ drop 0 (take (unat ?n) cs) @
             drop (unat ?n) (replicate (unat ?n) dflt)) ?h1)"
    using init len by (intro plain_copy_loop_copies [OF b1 b2 ne]) auto
  then have "plain_copy ?n ?a (data_' this) ?h1 = Inr (set_block ?a cs ?h1)"
    using len by (simp add: plain_copy_def)
  then show ?thesis
    using al can_allocate_valid [OF ca]
    by (simp add: vec_copy_def vec_operator_bool_def plain_traits_def)
qed


lemma deep_slots_copied:
  "deep_slots i n cs ds ds' h h' \<Longrightarrow> j < length ds \<Longrightarrow> i \<le> j \<Longrightarrow> j < n \<Longrightarrow>
   cs ! j \<noteq> Cell nullptr \<Longrightarrow>
   \<exists>p q. cs ! j = Cell p \<and> ds' ! j = Cell q \<and> q \<noteq> nullptr \<and>
     objects h q = None \<and> objects h' q = objects h p"
  unfolding deep_slots_def by (elim allE [of _ j]) simp

lemma deep_slots_kept:
  "deep_slots i n cs ds ds' h h' \<Longrightarrow> j < length ds \<Longrightarrow>
   \<not> (i \<le> j \<and> j < n \<and> cs ! j \<noteq> Cell nullptr) \<Longrightarrow> ds' ! j = ds ! j"
  unfolding deep_slots_def by (elim allE [of _ j]) (simp split: if_splits)

lemma deep_slotsI:
  assumes "\<And>j. j < length ds \<Longrightarrow> i \<le> j \<Longrightarrow> j < n \<Longrightarrow> cs ! j \<noteq> Cell nullptr \<Longrightarrow>
      \<exists>p q. cs ! j = Cell p \<and> ds' ! j = Cell q \<and> q \<noteq> nullptr \<and>
        objects h q = None \<and> objects h' q = objects h p"
    and "\<And>j. j < length ds \<Longrightarrow> \<not> (i \<le> j \<and> j < n \<and> cs ! j \<noteq> Cell nullptr) \<Longrightarrow> ds' ! j = ds ! j"
  shows "deep_slots i n cs ds ds' h h'"
  unfolding deep_slots_def using assms by (auto simp del: not_less)

lemma ptr_copy_loop_deep:
  assumes "heap_wf h"
    and "arrays h init = Some cs" and "arrays h data = Some ds" and "data \<noteq> init"
    and "n \<le> length cs" and "n \<le> length ds" and "i \<le> n"
    and "\<forall>j < n. \<exists>p. cs ! j = Cell p \<and> (p \<noteq> nullptr \<longrightarrow> objects h p \<noteq> None)"
    and "n - i \<le> avail h"
  shows "\<exists>h' ds'. ptr_copy_loop i n data init h = Inr h' \<and> heap_wf h' \<and>
      arrays h' = (arrays h)(data \<mapsto> ds') \<and> length ds' = length ds \<and>
      (\<forall>p. objects h p \<noteq> None \<longrightarrow> objects h' p = objects h p) \<and>
      deleted h' = deleted h \<and> deep_slots i n cs ds ds' h h'"
  using assms
proof (induction i n data init h arbitrary: ds rule: ptr_copy_loop.induct)
  case (1 i n data init h)
  note wf = "1.prems"(1) and src = "1.prems"(2) and dst = "1.prems"(3) and ne = "1.prems"(4)
    and ls = "1.prems"(5) and ld = "1.prems"(6) and cells = "1.prems"(8) and mem = "1.prems"(9)
  show ?case
  proof (cases "i < n")
    case False
    with "1.prems"(7) have "i = n" by simp
    then have "ptr_copy_loop i n data init h = Inr h"
      by (subst ptr_copy_loop.simps) simp
    moreover have "arrays h = (arrays h)(data \<mapsto> ds)"
      using dst by (simp add: map_upd_triv)
    moreover have "deep_slots i n cs ds ds h h"
      using \<open>i = n\<close> by (intro deep_slotsI) simp_all
    ultimately show ?thesis
      using wf by blast
  next
    case True
    then have si: "Suc i \<le> n" by simp
    from cells True obtain p where p: "cs ! i = Cell p" "p \<noteq> nullptr \<longrightarrow> objects h p \<noteq> None"
      by blast
    have ldi: "load init i h = Inr p"
      using src ls True p(1) by (simp add: load_def)
    show ?thesis
    proof (cases "p = nullptr")
      case True
      then have nn: "\<not> p \<noteq> nullptr" by simp
      have step: "ptr_copy_loop i n data init h = ptr_copy_loop (Suc i) n data init h"
        using \<open>i < n\<close> ldi True by (subst ptr_copy_loop.simps) simp
      have mem': "n - Suc i \<le> avail h" using mem by simp
      have "\<exists>h' ds'. ptr_copy_loop (Suc i) n data init h = Inr h' \<and> heap_wf h' \<and>
          arrays h' = (arrays h)(data \<mapsto> ds') \<and> length ds' = length ds \<and>
          (\<forall>p. objects h p \<noteq> None \<longrightarrow> objects h' p = objects h p) \<and>
          deleted h' = deleted h \<and> deep_slots (Suc i) n cs ds ds' h h'"
        by (rule "1.IH"(2) [OF \<open>i < n\<close> ldi nn wf src dst ne ls ld si cells mem'])
      then obtain h' ds' where r: "ptr_copy_loop (Suc i) n data init h = Inr h'" "heap_wf h'"
        "arrays h' = (arrays h)(data \<mapsto> ds')" "length ds' = length ds"
        "\<forall>p. objects h p \<noteq> None \<longrightarrow> objects h' p = objects h p"
        "deleted h' = deleted h" and ds: "deep_slots (Suc i) n cs ds ds' h h'"
        by blast
      have "deep_slots i n cs ds ds' h h'"
      proof (rule deep_slotsI)
        fix j assume j: "j < length ds" "i \<le> j" "j < n" "cs ! j \<noteq> Cell nullptr"
        with p(1) True have "j \<noteq> i" by auto
        with j have "Suc i \<le> j" by simp
        from deep_slots_copied [OF ds j(1) this j(3) j(4)]
        show "\<exists>p q. cs ! j = Cell p \<and> ds' ! j = Cell q \<and> q \<noteq> nullptr \<and>
          objects h q = None \<and> objects h' q = objects h p" .
      next
        fix j assume j: "j < length ds" "\<not> (i \<le> j \<and> j < n \<and> cs ! j \<noteq> Cell nullptr)"
        then have "\<not> (Suc i \<le> j \<and> j < n \<and> cs ! j \<noteq> Cell nullptr)" by auto
        from deep_slots_kept [OF ds j(1) this] show "ds' ! j = ds ! j" .
      qed
      with r step show ?thesis by metis
    next
      case False
      with p(2) obtain ob where ob: "objects h p = Some ob" by auto
      let ?q = "Suc (next_addr h)"
      let ?h1 = "h\<lparr>objects := (objects h)(?q \<mapsto> ob), next_addr := ?q, avail := avail h - 1\<rparr>"
      let ?ds2 = "ds[i := Cell ?q]"
      let ?h2 = "set_block data ?ds2 ?h1"
      have av: "1 \<le> avail h" using mem \<open>i < n\<close> by simp
      have cp: "obj_copy p h = Inr (?q, ?h1)"
        using ob av by (rule obj_copy_ok)
      have fresh: "objects h ?q = None" "arrays h ?q = None"
        using heap_wf_fresh [OF wf] by simp_all
      have st: "store data i ?q ?h1 = Inr ?h2"
        using dst ld \<open>i < n\<close> by (simp add: store_live)
      have step: "ptr_copy_loop i n data init h = ptr_copy_loop (Suc i) n data init ?h2"
        using \<open>i < n\<close> ldi False cp st by (subst ptr_copy_loop.simps) simp
      have wf2: "heap_wf ?h2"
        using wf dst by (auto simp: heap_wf_def split: if_splits)
      have src2: "arrays ?h2 init = Some cs"
        using src ne by simp
      have dst2: "arrays ?h2 data = Some ?ds2"
        by simp
      have ld2: "n \<le> length ?ds2" using ld by simp
      have mono: "objects ?h2 x \<noteq> None" if "objects h x \<noteq> None" for x
        using that by simp
      have cells2: "\<forall>j < n. \<exists>p. cs ! j = Cell p \<and> (p \<noteq> nullptr \<longrightarrow> objects ?h2 p \<noteq> None)"
        using cells mono by blast
      have mem2: "n - Suc i \<le> avail ?h2" using mem by simp
      have "\<exists>h' ds'. ptr_copy_loop (Suc i) n data init ?h2 = Inr h' \<and> heap_wf h' \<and>
          arrays h' = (arrays ?h2)(data \<mapsto> ds') \<and> length ds' = length ?ds2 \<and>
          (\<forall>p. objects ?h2 p \<noteq> None \<longrightarrow> objects h' p = objects ?h2 p) \<and>
          deleted h' = deleted ?h2 \<and> deep_slots (Suc i) n cs ?ds2 ds' ?h2 h'"
        by (rule "1.IH"(1) [OF \<open>i < n\<close> ldi False cp refl st wf2 src2 dst2 ne ls ld2 si cells2 mem2])
      then obtain h' ds' where r: "ptr_copy_loop (Suc i) n data init ?h2 = Inr h'" "heap_wf h'"
        and ar2: "arrays h' = (arrays ?h2)(data \<mapsto> ds')" and len2: "length ds' = length ?ds2"
        and keep2: "\<forall>p. objects ?h2 p \<noteq> None \<longrightarrow> objects h' p = objects ?h2 p"
        and del2: "deleted h' = deleted ?h2" and ds: "deep_slots (Suc i) n cs ?ds2 ds' ?h2 h'"
        by blast
      have ar: "arrays h' = (arrays h)(data \<mapsto> ds')"
        using ar2 by simp
      have len: "length ds' = length ds"
        using len2 by simp
      have del: "deleted h' = deleted h"
        using del2 by simp
      have keep: "\<forall>p. objects h p \<noteq> None \<longrightarrow> objects h' p = objects h p"
        using keep2 fresh(1) by auto
      have newq: "objects h' ?q = Some ob"
        using keep2 by simp
      have "deep_slots i n cs ds ds' h h'"
      proof (rule deep_slotsI)
        fix j assume j: "j < length ds" "i \<le> j" "j < n" "cs ! j \<noteq> Cell nullptr"
        show "\<exists>p q. cs ! j = Cell p \<and> ds' ! j = Cell q \<and> q \<noteq> nullptr \<and>
          objects h q = None \<and> objects h' q = objects h p"
        proof (cases "j = i")
          case True
          have "\<not> (Suc i \<le> j \<and> j < n \<and> cs ! j \<noteq> Cell nullptr)" using True by simp
          from deep_slots_kept [OF ds _ this] j(1) True have "ds' ! j = Cell ?q" by simp
          with True p(1) fresh(1) newq ob show ?thesis by simp
        next
          case False
          with j have "Suc i \<le> j" by simp
          from deep_slots_copied [OF ds _ this j(3) j(4)] j(1)
          obtain p' q' where pq: "cs ! j = Cell p'" "ds' ! j = Cell q'" "q' \<noteq> nullptr"
            "objects ?h2 q' = None" "objects h' q' = objects ?h2 p'"
            by auto
          from j pq(1) cells have "objects h p' \<noteq> None" by auto
          with fresh(1) have "p' \<noteq> ?q" by auto
          with pq(5) have "objects h' q' = objects h p'" by simp
          moreover from pq(4) have "objects h q' = None" by (simp split: if_splits)
          ultimately show ?thesis using pq by auto
        qed
      next
        fix j assume j: "j < length ds" "\<not> (i \<le> j \<and> j < n \<and> cs ! j \<noteq> Cell nullptr)"
        with p(1) False \<open>i < n\<close> have "j \<noteq> i" by auto
        from j have "\<not> (Suc i \<le> j \<and> j < n \<and> cs ! j \<noteq> Cell nullptr)" by auto
        from deep_slots_kept [OF ds _ this] j(1) \<open>j \<noteq> i\<close> show "ds' ! j = ds ! j" by simp
      qed
      with r ar len del keep step show ?thesis by metis
    qed
  qed
qed


lemma heap_wf_alloc_block: "heap_wf h \<Longrightarrow> heap_wf (alloc_block dflt n h)"
  by (auto simp: heap_wf_def split: if_splits)

lemma vec_copy_ptr_deep:
  assumes wf: "heap_wf h" and sz: "size_' this \<noteq> 0"
    and blk: "arrays h (data_' this) = Some cs" and len: "length cs = unat (size_' this)"
    and cells: "\<forall>j < length cs. \<exists>p. cs ! j = Cell p \<and> (p \<noteq> nullptr \<longrightarrow> objects h p \<noteq> None)"
    and ca: "can_allocate (size_' this) h" and mem: "2 * length cs \<le> avail h"
  shows "\<exists>h' ds'. vec_copy ptr_traits this h =
        Inr (\<lparr>size_' = size_' this, data_' = Suc (next_addr h)\<rparr>, h') \<and>
      arrays h' (data_' this) = Some cs \<and>
      arrays h' (Suc (next_addr h)) = Some ds' \<and> length ds' = length cs \<and>
      (\<forall>p. objects h p \<noteq> None \<longrightarrow> objects h' p = objects h p) \<and>
      deleted h' = deleted h \<and>
      (\<forall>j < length cs.
         if cs ! j \<noteq> Cell nullptr
         then \<exists>p q. cs ! j = Cell p \<and> ds' ! j = Cell q \<and> q \<noteq> nullptr \<and>
                objects h q = None \<and> objects h' q = objects h p
         else ds' ! j = Indeterminate)"
proof -
  let ?n = "size_' this"
  let ?a = "Suc (next_addr h)"
  let ?h1 = "alloc_block (Indeterminate :: addr cell) ?n h"
  let ?ds = "replicate (unat ?n) (Indeterminate :: addr cell)"
  have al: "vec_alloc ptr_traits ?n h = Inr (\<lparr>size_' = ?n, data_' = ?a\<rparr>, ?h1)"
    using sz ca by (simp add: vec_alloc_ok ptr_traits_def)
  have ne: "?a \<noteq> data_' this"
    using heap_wf_fresh [OF wf] blk by auto
  have wf1: "heap_wf ?h1" by (rule heap_wf_alloc_block [OF wf])
  have src1: "arrays ?h1 (data_' this) = Some cs"
    using ca blk ne by (simp add: new_array_ok)
  have dst1: "arrays ?h1 ?a = Some ?ds"
    using ca by (simp add: new_array_ok)
  have ob1: "objects ?h1 = objects h" "deleted ?h1 = deleted h"
    using ca by (simp_all add: new_array_ok)
  have cells1: "\<forall>j < unat ?n. \<exists>p. cs ! j = Cell p \<and> (p \<noteq> nullptr \<longrightarrow> objects ?h1 p \<noteq> None)"
    using cells len by (simp add: ob1)
  have mem1: "unat ?n - 0 \<le> avail ?h1"
    using ca mem len by (simp add: new_array_ok)
  have "\<exists>h' ds'. ptr_copy_loop 0 (unat ?n) ?a (data_' this) ?h1 = Inr h' \<and> heap_wf h' \<and>
      arrays h' = (arrays ?h1)(?a \<mapsto> ds') \<and> length ds' = length ?ds \<and>
      (\<forall>p. objects ?h1 p \<noteq> None \<longrightarrow> objects h' p = objects ?h1 p) \<and>
      deleted h' = deleted ?h1 \<and> deep_slots 0 (unat ?n) cs ?ds ds' ?h1 h'"
    using len by (intro ptr_copy_loop_deep [OF wf1 src1 dst1 ne _ _ _ cells1 mem1]) simp_all
  then obtain h' ds' where r: "ptr_copy_loop 0 (unat ?n) ?a (data_' this) ?h1 = Inr h'"
    and ar: "arrays h' = (arrays ?h1)(?a \<mapsto> ds')" and ln: "length ds' = length ?ds"
    and keep: "\<forall>p. objects ?h1 p \<noteq> None \<longrightarrow> objects h' p = objects ?h1 p"
    and del: "deleted h' = deleted ?h1" and ds: "deep_slots 0 (unat ?n) cs ?ds ds' ?h1 h'"
    by blast
  have run: "vec_copy ptr_traits this h = Inr (\<lparr>size_' = ?n, data_' = ?a\<rparr>, h')"
    using al r can_allocate_valid [OF ca]
    by (simp add: vec_copy_def vec_operator_bool_def ptr_traits_def ptr_copy_def)
  have a1: "arrays h' (data_' this) = Some cs"
    using ar src1 ne by simp
  have a2: "arrays h' ?a = Some ds'"
    using ar by simp
  have slots: "\<forall>j < length cs.
         if cs ! j \<noteq> Cell nullptr
         then \<exists>p q. cs ! j = Cell p \<and> ds' ! j = Cell q \<and> q \<noteq> nullptr \<and>
                objects h q = None \<and> objects h' q = objects h p
         else ds' ! j = Indeterminate"
  proof (intro allI impI)
    fix j assume j: "j < length cs"
    then have j': "j < length ?ds" "j < unat ?n" using len by simp_all
    show "if cs ! j \<noteq> Cell nullptr
         then \<exists>p q. cs ! j = Cell p \<and> ds' ! j = Cell q \<and> q \<noteq> nullptr \<and>
                objects h q = None \<and> objects h' q = objects h p
         else ds' ! j = Indeterminate"
    proof (cases "cs ! j \<noteq> Cell nullptr")
      case True
      from deep_slots_copied [OF ds j'(1) _ j'(2) True] show ?thesis
        using True by (simp add: ob1)
    next
      case False
      then have "\<not> (0 \<le> j \<and> j < unat ?n \<and> cs ! j \<noteq> Cell nullptr)" by simp
      from deep_slots_kept [OF ds j'(1) this] j'(2) False show ?thesis by simp
    qed
  qed
  show ?thesis
    using run a1 a2 ln len keep del slots by (simp add: ob1)
qed

lemma make_null_slot:
  "vec_make_uninitialized ptr_traits 1 (fresh_heap 8 :: (addr, nat) heap) =
     Inr (\<lparr>size_' = 1, data_' = 1\<rparr>, null_slot_heap)"
proof -
  have ca: "can_allocate 1 (fresh_heap 8 :: (addr, nat) heap)"
    by (simp add: can_allocate_def fresh_heap_def SIZE_MAX_def)
  show ?thesis
    using vec_make_uninitialized_ok_ptr [OF _ ca] ca
    by (simp add: fresh_heap_def null_slot_heap_def new_array_ok set_block_def)
qed

text \<open>
  C3. The claim is that every null source slot is null in the copy. On the code,
  \<open>copy()\<close> of the vector built by \<open>make_uninitialized(1)\<close> allocates the new block
  with \<open>new T*[1]\<close>, which leaves the slot indeterminate, and \<open>vec_traits<T*>::copy\<close>
  skips the null source slot without writing: reading the copy's slot is undefined
  behaviour, where the source's slot reads null.
\<close>

theorem vec_copy_leaves_null_slot_indeterminate:
  "vec_make_uninitialized ptr_traits 1 (fresh_heap 8 :: (addr, nat) heap) =
     Inr (\<lparr>size_' = 1, data_' = 1\<rparr>, null_slot_heap) \<and>
   proxy_get (vec_index \<lparr>size_' = 1, data_' = 1\<rparr> 0) null_slot_heap = Inr nullptr \<and>
   vec_copy ptr_traits \<lparr>size_' = 1, data_' = 1\<rparr> null_slot_heap =
     Inr (\<lparr>size_' = 1, data_' = 2\<rparr>,
          null_slot_heap\<lparr>arrays := [1 \<mapsto> [Cell nullptr], 2 \<mapsto> [Indeterminate]],
                          next_addr := 2, avail := 6\<rparr>) \<and>
   proxy_get (vec_index \<lparr>size_' = 1, data_' = 2\<rparr> 0)
     (null_slot_heap\<lparr>arrays := [1 \<mapsto> [Cell nullptr], 2 \<mapsto> [Indeterminate]],
                      next_addr := 2, avail := 6\<rparr>) = Inl UndefinedBehaviour"
proof -
  have ca: "can_allocate 1 null_slot_heap"
    by (simp add: can_allocate_def null_slot_heap_def SIZE_MAX_def)
  have al: "vec_alloc ptr_traits 1 null_slot_heap =
     Inr (\<lparr>size_' = 1, data_' = 2\<rparr>,
          null_slot_heap\<lparr>arrays := [1 \<mapsto> [Cell nullptr], 2 \<mapsto> [Indeterminate]],
                          next_addr := 2, avail := 6\<rparr>)"
    using vec_alloc_ok [OF _ ca, of ptr_traits] ca
    by (simp add: new_array_ok ptr_traits_def) (simp add: null_slot_heap_def numeral_2_eq_2)
  have cp: "ptr_copy 1 2 1
      (null_slot_heap\<lparr>arrays := [1 \<mapsto> [Cell nullptr], 2 \<mapsto> [Indeterminate]],
                       next_addr := 2, avail := 6\<rparr>) =
      Inr (null_slot_heap\<lparr>arrays := [1 \<mapsto> [Cell nullptr], 2 \<mapsto> [Indeterminate]],
                       next_addr := 2, avail := 6\<rparr>)"
    by (simp add: ptr_copy_def ptr_copy_loop.simps load_def)
  have c: "vec_copy ptr_traits \<lparr>size_' = 1, data_' = 1\<rparr> null_slot_heap =
     Inr (\<lparr>size_' = 1, data_' = 2\<rparr>,
          null_slot_heap\<lparr>arrays := [1 \<mapsto> [Cell nullptr], 2 \<mapsto> [Indeterminate]],
                          next_addr := 2, avail := 6\<rparr>)"
    using al cp
    by (simp add: vec_copy_def vec_operator_bool_def invalid_size_def SIZE_MAX_def)
       (simp add: ptr_traits_def)
  show ?thesis
    using make_null_slot c
    by (simp add: proxy_get_def vec_index_def load_def) (simp add: null_slot_heap_def numeral_2_eq_2)
qed

end
